theory Spec2Isabelle
  imports Complex_Main "HOL-Library.Word" "HOL-Library.Monad_Syntax"
begin

section \<open>Configuration constants (config.h)\<close>

text \<open>
  The firmware's \<^verbatim>\<open>float\<close> values are modelled as \<^typ>\<open>real\<close>: the claims below are
  about comparisons against thresholds and about control flow, not about rounding.
  \<^verbatim>\<open>uint32_t\<close> time stamps are \<^typ>\<open>32 word\<close>, so that \<^verbatim>\<open>millis() - start\<close> wraps
  around as it does on the device.
\<close>

type_synonym u32 = "32 word"
type_synonym u8 = "8 word"

definition LCD_TIMEOUT :: u32 where [simp]: "LCD_TIMEOUT = 3000"
definition INFO_DISPLAY_TIME :: u32 where [simp]: "INFO_DISPLAY_TIME = 3000"
definition QUICK_DISPLAY_TIME :: u32 where [simp]: "QUICK_DISPLAY_TIME = 2000"
definition LCD_UPDATE_INTERVAL :: u32 where [simp]: "LCD_UPDATE_INTERVAL = 500"
definition PING_SAMPLES :: nat where [simp]: "PING_SAMPLES = 5"
definition WATER_CRITICAL_HEIGHT :: real where [simp]: "WATER_CRITICAL_HEIGHT = 2"
definition DISTANCE_WATER_EMPTY :: real where [simp]: "DISTANCE_WATER_EMPTY = 19"
definition DISTANCE_WATER_FULL :: real where [simp]: "DISTANCE_WATER_FULL = 16"
definition REFILL_DURATION :: u32 where [simp]: "REFILL_DURATION = 10000"
definition COOLDOWN_PERIOD :: u32 where [simp]: "COOLDOWN_PERIOD = 300000"
definition SERVO_OPEN_ANGLE :: nat where [simp]: "SERVO_OPEN_ANGLE = 60"
definition SERVO_CLOSE_ANGLE :: nat where [simp]: "SERVO_CLOSE_ANGLE = 180"
definition FEED_TIMEOUT :: u32 where [simp]: "FEED_TIMEOUT = 30000"
definition FEED_RETRY_TIMEOUT :: int where [simp]: "FEED_RETRY_TIMEOUT = 2"
definition FEED_CALIBRATION_FACTOR :: real where [simp]: "FEED_CALIBRATION_FACTOR = 9 / 10"
definition FEED_COMPLETE_FACTOR :: real where [simp]: "FEED_COMPLETE_FACTOR = 95 / 100"
definition WEIGHT_READ_INTERVAL :: u32 where [simp]: "WEIGHT_READ_INTERVAL = 100"
definition SETTLE_FINAL_TIME :: nat where [simp]: "SETTLE_FINAL_TIME = 2000"
definition FEED_THRESHOLD :: real where [simp]: "FEED_THRESHOLD = 50"
definition FEED_WEIGHT :: real where [simp]: "FEED_WEIGHT = 65"
definition FEED_TOTAL_WEIGHT :: real where [simp]: "FEED_TOTAL_WEIGHT = 200"
definition WEIGHT_STABILITY_THRESHOLD :: real where [simp]: "WEIGHT_STABILITY_THRESHOLD = 3 / 10"
definition SCALE_TIMEOUT :: "16 word" where [simp]: "SCALE_TIMEOUT = 3000"
definition BUTTON_DEBOUNCE_TIME :: nat where [simp]: "BUTTON_DEBOUNCE_TIME = 50"
definition BUTTON_RELEASE_TIME :: nat where [simp]: "BUTTON_RELEASE_TIME = 10"

section \<open>The device and its environment\<close>

text \<open>
  The sensors and the network are outside the program. Each is an oracle indexed by the
  number of calls made so far: \<open>is_ready e k\<close> is what the \<open>k\<close>-th call of
  \<^verbatim>\<open>scale.is_ready()\<close> answers, \<open>get_units e k n\<close> what the \<open>k\<close>-th call of
  \<^verbatim>\<open>scale.get_units(n)\<close> returns, \<open>ping e k\<close> the echo time of the \<open>k\<close>-th
  \<^verbatim>\<open>sonar.ping()\<close>, \<open>button_low e k\<close> whether the \<open>k\<close>-th read of the manual feed button
  finds it pressed (\<^verbatim>\<open>LOW\<close>). \<open>convert_cm\<close> is the NewPing library's conversion, which
  is not part of the repository and is a parameter here.
\<close>

record env =
  is_ready :: "nat \<Rightarrow> bool"
  get_units :: "nat \<Rightarrow> nat \<Rightarrow> real"
  ping :: "nat \<Rightarrow> u32"
  convert_cm :: "u32 \<Rightarrow> u32"
  wifi_connected :: "nat \<Rightarrow> bool"
  isWebConnected :: "nat \<Rightarrow> bool"
  button_low :: "nat \<Rightarrow> bool"

text \<open>
  What the program writes to the outside: text on the LCD (a formatted line is logged by
  its format string, a printed number by its value, a bar by its width; cursor moves and
  \<^verbatim>\<open>lcd.clear()\<close> are not logged), and the status messages handed to the network layer.
  Serial debug output and \<^verbatim>\<open>yield()\<close> have no effect on the modelled state.
\<close>

datatype event =
  Lcd string
  | LcdNum int
  | LcdBar nat
  | WaterStatus string
  | WaterLevelToServer real
  | LogEntry string
  | LogEvent string string
  | FeedingComplete bool real real

text \<open>
  The device state the program reads and writes. \<open>clock\<close> is the time since boot in
  milliseconds; the program sees it through \<^verbatim>\<open>millis()\<close> only, truncated to 32 bits.
  Time passes in \<^verbatim>\<open>delay\<close>; every other operation is instantaneous.
  \<open>servo_log\<close> holds the angles written to the hatch servo, oldest first, and
  \<open>relay_pin\<close> the level last written to the pump relay pin.
\<close>

record world =
  clock :: nat
  ready_calls :: nat
  units_calls :: nat
  ping_calls :: nat
  wifi_calls :: nat
  web_calls :: nat
  button_reads :: nat
  servo_log :: "nat list"
  relay_pin :: bool
  events :: "event list"

definition millis :: "world \<Rightarrow> u32" where
  "millis w = word_of_nat (clock w)"

definition delay :: "nat \<Rightarrow> world \<Rightarrow> world" where
  "delay d w = w\<lparr>clock := clock w + d\<rparr>"

definition emit :: "event \<Rightarrow> world \<Rightarrow> world" where
  "emit ev w = w\<lparr>events := events w @ [ev]\<rparr>"

definition servo_write :: "nat \<Rightarrow> world \<Rightarrow> world" where
  "servo_write angle w = w\<lparr>servo_log := servo_log w @ [angle]\<rparr>"

definition relay_write :: "bool \<Rightarrow> world \<Rightarrow> world" where
  "relay_write level w = w\<lparr>relay_pin := level\<rparr>"

definition scale_is_ready :: "env \<Rightarrow> world \<Rightarrow> bool \<times> world" where
  "scale_is_ready e w = (is_ready e (ready_calls w), w\<lparr>ready_calls := ready_calls w + 1\<rparr>)"

definition scale_get_units :: "env \<Rightarrow> nat \<Rightarrow> world \<Rightarrow> real \<times> world" where
  "scale_get_units e n w =
     (get_units e (units_calls w) n, w\<lparr>units_calls := units_calls w + 1\<rparr>)"

definition button_read :: "env \<Rightarrow> world \<Rightarrow> bool \<times> world" where
  "button_read e w = (button_low e (button_reads w), w\<lparr>button_reads := button_reads w + 1\<rparr>)"

definition sonar_ping :: "env \<Rightarrow> world \<Rightarrow> u32 \<times> world" where
  "sonar_ping e w = (ping e (ping_calls w), w\<lparr>ping_calls := ping_calls w + 1\<rparr>)"

text \<open>
  \<^verbatim>\<open>WiFi.status() == WL_CONNECTED && isWebConnected()\<close>: the second call is made only
  when the first holds.
\<close>

definition online :: "env \<Rightarrow> world \<Rightarrow> bool \<times> world" where
  "online e w =
     (let w1 = w\<lparr>wifi_calls := wifi_calls w + 1\<rparr> in
      if wifi_connected e (wifi_calls w)
      then (isWebConnected e (web_calls w1), w1\<lparr>web_calls := web_calls w1 + 1\<rparr>)
      else (False, w1))"

definition web_online :: "env \<Rightarrow> world \<Rightarrow> bool \<times> world" where
  "web_online e w = (isWebConnected e (web_calls w), w\<lparr>web_calls := web_calls w + 1\<rparr>)"

section \<open>Sample filters\<close>

subsection \<open>getStableWeight (scale_helpers.h)\<close>

text \<open>
  The first loop fills \<^verbatim>\<open>weights[i]\<close>: the reading when the scale is ready, 0 when it
  is not; each round ends with \<^verbatim>\<open>delay(50)\<close>.
\<close>

fun read_weights :: "env \<Rightarrow> nat \<Rightarrow> nat \<Rightarrow> world \<Rightarrow> real list \<times> world" where
  "read_weights e samples 0 w = ([], w)"
| "read_weights e samples (Suc n) w =
     (let (rdy, w1) = scale_is_ready e w;
          (x, w2) = (if rdy then scale_get_units e samples w1 else (0, w1));
          (xs, w3) = read_weights e samples n (delay 50 w2)
      in (x # xs, w3))"

text \<open>
  The second loop: minimum, maximum, total and count of the readings that are not 0.
\<close>

record stats =
  minWeight :: real
  maxWeight :: real
  totalWeight :: real
  validReadings :: int

fun stats_loop :: "real list \<Rightarrow> stats \<Rightarrow> stats" where
  "stats_loop [] s = s"
| "stats_loop (x # xs) s =
     (if x \<noteq> 0
      then stats_loop xs
             \<lparr>minWeight = (if x < minWeight s then x else minWeight s),
              maxWeight = (if x > maxWeight s then x else maxWeight s),
              totalWeight = totalWeight s + x,
              validReadings = validReadings s + 1\<rparr>
      else stats_loop xs s)"

definition stats_init :: stats where
  "stats_init = \<lparr>minWeight = 9999, maxWeight = - 9999, totalWeight = 0, validReadings = 0\<rparr>"

text \<open>The readings taken and the statistics the function computes from them.\<close>

definition stable_stats :: "env \<Rightarrow> int \<Rightarrow> nat \<Rightarrow> world \<Rightarrow> stats \<times> world" where
  "stable_stats e numReadings samplesPerReading w =
     (let n = (if numReadings > 10 then 10 else numReadings);
          (weights, w1) = read_weights e samplesPerReading (nat n) w
      in (stats_loop weights stats_init, w1))"

definition getStableWeight :: "env \<Rightarrow> int \<Rightarrow> nat \<Rightarrow> real \<Rightarrow> world \<Rightarrow> real \<times> world" where
  "getStableWeight e numReadings samplesPerReading stabilityThreshold w =
     (let (s, w1) = stable_stats e numReadings samplesPerReading w in
      if validReadings s = 0 then (0, w1)
      else (totalWeight s / real_of_int (validReadings s), w1))"

subsection \<open>getDistance (water_helpers.h)\<close>

fun ping_loop :: "env \<Rightarrow> nat \<Rightarrow> u32 \<times> u8 \<Rightarrow> world \<Rightarrow> (u32 \<times> u8) \<times> world" where
  "ping_loop e 0 acc w = (acc, w)"
| "ping_loop e (Suc n) (totalDistance, valid) w =
     (let (uS, w1) = sonar_ping e w;
          acc = (if uS > 0 then (totalDistance + convert_cm e uS, valid + 1)
                 else (totalDistance, valid))
      in ping_loop e n acc (delay 10 w1))"

text \<open>
  The average is an unsigned integer division (\<^verbatim>\<open>uint32_t / uint8_t\<close>), converted to
  \<^verbatim>\<open>float\<close> on return.
\<close>

definition getDistance :: "env \<Rightarrow> world \<Rightarrow> real \<times> world" where
  "getDistance e w =
     (let ((totalDistance, valid), w1) = ping_loop e PING_SAMPLES (0, 0) w in
      if valid = 0 then (0, w1)
      else (real (unat (totalDistance div ucast valid)), w1))"

definition constrain :: "real \<Rightarrow> real \<Rightarrow> real \<Rightarrow> real" where
  "constrain amt low high = (if amt < low then low else if amt > high then high else amt)"

section \<open>Non-blocking wait (main.cpp) and lcdMessage (lcd_helpers.h)\<close>

text \<open>
  The waiting loop \<^verbatim>\<open>while (millis() - startWait < actualWaitTime) { yield(); delay(10); }\<close>.
  It need not end: the elapsed time is compared modulo \<open>2 ^ 32\<close>.
\<close>

partial_function (option) wait_loop :: "u32 \<Rightarrow> u32 \<Rightarrow> world \<Rightarrow> world option" where
  "wait_loop startWait actualWaitTime w =
     (if millis w - startWait < actualWaitTime
      then wait_loop startWait actualWaitTime (delay 10 w)
      else Some w)"

declare wait_loop.simps [code]

definition nonBlockingWait :: "u32 \<Rightarrow> u32 \<Rightarrow> world \<Rightarrow> world option" where
  "nonBlockingWait waitTime startDisplayTime w =
     (let startWait = millis w in
      if LCD_TIMEOUT > 0 \<and> startDisplayTime > 0 then
        (let elapsedDisplayTime = millis w - startDisplayTime in
         if elapsedDisplayTime \<ge> LCD_TIMEOUT then Some w
         else
           (let remainingDisplayTime = LCD_TIMEOUT - elapsedDisplayTime;
                actualWaitTime = max waitTime remainingDisplayTime
            in wait_loop startWait actualWaitTime w))
      else wait_loop startWait waitTime w)"

text \<open>\<open>None\<close> for a line is the \<^verbatim>\<open>NULL\<close> pointer: that line is left as it is.\<close>

definition lcdMessage :: "string option \<Rightarrow> string option \<Rightarrow> u32 \<Rightarrow> world \<Rightarrow> world option" where
  "lcdMessage line1 line2 waitTime w =
     (let w1 = (case line1 of None \<Rightarrow> w | Some s \<Rightarrow> emit (Lcd s) w);
          w2 = (case line2 of None \<Rightarrow> w1 | Some s \<Rightarrow> emit (Lcd s) w1)
      in if waitTime > 0 then nonBlockingWait waitTime 0 w2 else Some w2)"

text \<open>
  progressBar (lcd_helpers.h) prints the percentage and draws a bar; the bar is logged by
  the number of its filled pixels, out of 80.
\<close>

definition progressBar :: "real \<Rightarrow> world \<Rightarrow> world" where
  "progressBar percentage w =
     (let percent = constrain percentage 0 100;
          filledPixels = nat \<lfloor>percent / 100 * (16 * 5)\<rfloor>
      in emit (LcdBar filledPixels) (emit (Lcd ''%3d%%'') w))"

section \<open>Water refill state machine (water_helpers.h)\<close>

datatype WaterState = CHECK_WATER | REFILL_RUNNING | COOLDOWN

text \<open>The function's three \<^verbatim>\<open>static\<close> variables.\<close>

record water =
  state :: WaterState
  stateStartTime :: u32
  lastDisplayUpdate :: u32

definition water_init :: water where
  "water_init = \<lparr>state = CHECK_WATER, stateStartTime = 0, lastDisplayUpdate = 0\<rparr>"

text \<open>
  \<^verbatim>\<open>DISPLAY_UPDATE_INTERVAL\<close> is used by water_helpers.h and defined in no header of the
  repository; main.cpp's own copy of the function declares it as 1000. It only paces the
  countdown display.
\<close>

definition DISPLAY_UPDATE_INTERVAL :: u32 where [simp]: "DISPLAY_UPDATE_INTERVAL = 1000"

text \<open>
  Case \<^verbatim>\<open>CHECK_WATER\<close>, after \<^verbatim>\<open>getDistance()\<close> has returned \<open>distanceCm\<close>. The line that
  would switch the relay on is commented out in the source
  (\<^verbatim>\<open>// digitalWrite(WATER_PUMP_RELAY_PIN, HIGH);\<close>), so this case writes nothing to it.
\<close>

definition check_water_with ::
  "env \<Rightarrow> u32 \<Rightarrow> real \<Rightarrow> water \<Rightarrow> world \<Rightarrow> (water \<times> world) option" where
  "check_water_with e currentMillis distanceCm ws w =
     (if distanceCm \<le> 0 \<or> distanceCm > 400 then
        (case nonBlockingWait INFO_DISPLAY_TIME 0
                (emit (Lcd ''Check ultrasonic'') (emit (Lcd ''Sensor Error'') w)) of
           None \<Rightarrow> None
         | Some w1 \<Rightarrow> Some (ws, w1))
      else
        (let waterHeight = constrain (DISTANCE_WATER_EMPTY - distanceCm) 0
                             (DISTANCE_WATER_EMPTY - DISTANCE_WATER_FULL);
             waterPercentage = constrain
                 (waterHeight / (DISTANCE_WATER_EMPTY - DISTANCE_WATER_FULL) * 100) 0 100;
             (on, w1) = online e w;
             w2 = (if on
                   then emit (WaterStatus (if waterHeight \<le> WATER_CRITICAL_HEIGHT
                                           then ''low'' else ''ok'')) w1
                   else w1);
             w3 = emit (WaterLevelToServer waterHeight) w2;
             w4 = emit (Lcd ''Water Level:'') w3
         in if waterHeight \<le> WATER_CRITICAL_HEIGHT then
              (let w5 = emit (Lcd ''LOW! %.1fcm (%d%%)'') w4;
                   (on2, w6) = online e w5;
                   w7 = (if on2
                         then emit (LogEntry ''water_low'') (emit (WaterStatus ''refilling'') w6)
                         else w6);
                   w8 = emit (Lcd ''Refilling...'') (emit (Lcd ''Water low!'') w7)
               in Some (ws\<lparr>state := REFILL_RUNNING, stateStartTime := currentMillis,
                            lastDisplayUpdate := currentMillis\<rparr>, w8))
            else
              Some (ws, progressBar waterPercentage (emit (Lcd ''OK %.1fcm (%d%%)'') w4))))"

text \<open>Case \<^verbatim>\<open>REFILL_RUNNING\<close>.\<close>

definition refill_running :: "env \<Rightarrow> u32 \<Rightarrow> water \<Rightarrow> world \<Rightarrow> water \<times> world" where
  "refill_running e currentMillis ws w =
     (let (ws1, w1) =
            (if currentMillis - lastDisplayUpdate ws \<ge> 200 then
               (let elapsedSecs = (currentMillis - stateStartTime ws) div 1000;
                    wd = emit (Lcd (replicate (unat (elapsedSecs mod 3) + 1) CHR ''.''))
                           (emit (Lcd ''   '') w);
                    remainingSecs = max 0
                        (sint ((REFILL_DURATION - (currentMillis - stateStartTime ws)) div 1000 + 1))
                in (ws\<lparr>lastDisplayUpdate := currentMillis\<rparr>, emit (LcdNum remainingSecs) wd))
             else (ws, w))
      in if currentMillis - stateStartTime ws1 \<ge> REFILL_DURATION then
           (let w2 = relay_write False w1;
                (on, w3) = web_online e w2;
                w4 = (if on
                      then emit (LogEntry ''water_refilled'') (emit (WaterStatus ''cooldown'') w3)
                      else w3);
                w5 = emit (Lcd ''Cooldown: 5 min'') (emit (Lcd ''Refill complete'') w4)
            in (ws1\<lparr>state := COOLDOWN, stateStartTime := currentMillis,
                     lastDisplayUpdate := currentMillis\<rparr>, w5))
         else (ws1, w1))"

text \<open>Case \<^verbatim>\<open>COOLDOWN\<close>.\<close>

definition cooldown :: "env \<Rightarrow> u32 \<Rightarrow> water \<Rightarrow> world \<Rightarrow> water \<times> world" where
  "cooldown e currentMillis ws w =
     (let (ws1, w1) =
            (if currentMillis - lastDisplayUpdate ws \<ge> DISPLAY_UPDATE_INTERVAL then
               (let elapsedMs = currentMillis - stateStartTime ws;
                    remainingSecs = (COOLDOWN_PERIOD - elapsedMs) div 1000;
                    wc = emit (Lcd ''     '') w
                in (ws\<lparr>lastDisplayUpdate := currentMillis\<rparr>,
                    if elapsedMs > COOLDOWN_PERIOD then emit (Lcd ''00:00'') wc
                    else
                      (let wm = emit (Lcd '':'') (emit (LcdNum (uint (remainingSecs div 60))) wc);
                           wz = (if remainingSecs mod 60 < 10 then emit (Lcd ''0'') wm else wm)
                       in emit (LcdNum (uint (remainingSecs mod 60))) wz)))
             else (ws, w))
      in if currentMillis - stateStartTime ws1 \<ge> COOLDOWN_PERIOD then
           (let (on, w2) = web_online e w1;
                w3 = (if on
                      then emit (LogEntry ''water_ready'') (emit (WaterStatus ''ready'') w2)
                      else w2)
            in (ws1\<lparr>state := CHECK_WATER\<rparr>, w3))
         else (ws1, w1))"

text \<open>
  One invocation: \<^verbatim>\<open>millis()\<close> is read once, on entry, and the \<^verbatim>\<open>switch\<close> runs the
  case of the current state.
\<close>

definition checkWaterLevel :: "env \<Rightarrow> water \<Rightarrow> world \<Rightarrow> (water \<times> world) option" where
  "checkWaterLevel e ws w =
     (let currentMillis = millis w in
      case state ws of
        CHECK_WATER \<Rightarrow>
          (let (distanceCm, w1) = getDistance e w
           in check_water_with e currentMillis distanceCm ws w1)
      | REFILL_RUNNING \<Rightarrow> Some (refill_running e currentMillis ws w)
      | COOLDOWN \<Rightarrow> Some (cooldown e currentMillis ws w))"

section \<open>Feeding dispense controller (feeding_helpers.h)\<close>

subsection \<open>updateFeedingDisplay and measureSettledWeight\<close>

text \<open>
  The progress display. The percentage is a \<^verbatim>\<open>float\<close> quotient: the model follows the
  code for every \<open>targetWeight\<close> other than 0 (feeding passes \<open>FEED_WEIGHT\<close>); with
  \<open>targetWeight = 0\<close> the code divides by zero, which division on \<^typ>\<open>real\<close> does not
  render. Only what is shown on the LCD depends on it.
\<close>

definition updateFeedingDisplay :: "real \<Rightarrow> real \<Rightarrow> bool \<Rightarrow> world \<Rightarrow> world" where
  "updateFeedingDisplay dispensed targetWeight showProgressBar w =
     (let progressPercent = constrain (dispensed / targetWeight * 100) 0 100;
          w1 = emit (Lcd ''Feeding: %d%%'') w
      in if \<not> showProgressBar \<or> progressPercent < 80
         then emit (Lcd ''Target: %.0fg'') w1
         else emit (LcdBar (nat \<lfloor>progressPercent * 16 / 100\<rfloor>)) w1)"

text \<open>
  The loop of measureSettledWeight: a reading is taken, and 100 ms waited, only in the
  rounds in which the scale is ready. \<open>i\<close> is the loop index.
\<close>

fun settle_loop ::
  "env \<Rightarrow> nat \<Rightarrow> int \<Rightarrow> nat \<Rightarrow> real \<times> int \<Rightarrow> world \<Rightarrow> (real \<times> int) \<times> world" where
  "settle_loop e samples i 0 acc w = (acc, w)"
| "settle_loop e samples i (Suc n) (settledWeight, valid) w =
     (let (rdy, w1) = scale_is_ready e w in
      if rdy then
        (let (x, w2) = scale_get_units e samples w1;
             w3 = delay 100 (emit (LcdNum (i + 1)) w2)
         in settle_loop e samples (i + 1) n (settledWeight + x, valid + 1) w3)
      else settle_loop e samples (i + 1) n (settledWeight, valid) w1)"

definition measureSettledWeight :: "env \<Rightarrow> int \<Rightarrow> nat \<Rightarrow> world \<Rightarrow> real \<times> world" where
  "measureSettledWeight e numReadings samplesPerReading w =
     (let ((settledWeight, valid), w1) =
            settle_loop e samplesPerReading 0 (nat numReadings) (0, 0) w
      in (if valid > 0 then settledWeight / real_of_int valid else 0, w1))"

subsection \<open>dispenseFoodWithFeedback\<close>

text \<open>The local variables of dispenseFoodWithFeedback that live across loop rounds.\<close>

record feed =
  weightReadings :: "real list"
  readingIndex :: nat
  currentWeight :: real
  startTime :: u32
  lastDisplayUpdateF :: u32
  lastWeightRead :: u32
  targetReached :: bool
  preCloseExecuted :: bool
  dispensedWeight :: real
  retryCount :: int
  stabilityCounter :: int

definition movingAvgSize :: nat where [simp]: "movingAvgSize = 3"

text \<open>How a round of the loop, and the loop, ends: by the \<^verbatim>\<open>return\<close> inside it or not.\<close>

datatype round = Returned feed world | Continues feed world

text \<open>
  The scale did not answer: up to five more tries, 100 ms apart
  (\<^verbatim>\<open>for (int i = 0; i < 5; i++) { delay(100); yield(); if (scale.is_ready()) ... break; }\<close>).
\<close>

fun recover_loop :: "env \<Rightarrow> nat \<Rightarrow> world \<Rightarrow> bool \<times> world" where
  "recover_loop e 0 w = (False, w)"
| "recover_loop e (Suc n) w =
     (let (rdy, w1) = scale_is_ready e (delay 100 w) in
      if rdy then (True, w1) else recover_loop e n w1)"

text \<open>The pre-close rule, entered when the hatch is to be closed ahead of the target.\<close>

definition pre_close :: "env \<Rightarrow> real \<Rightarrow> real \<Rightarrow> feed \<Rightarrow> world \<Rightarrow> (feed \<times> world) option" where
  "pre_close e initialWeight targetAmount f w =
     (let w1 = servo_write SERVO_CLOSE_ANGLE w;
          f1 = f\<lparr>preCloseExecuted := True\<rparr>;
          w2 = emit (Lcd ''Food settling'') (emit (Lcd ''Almost there...'') w1);
          w3 = delay SETTLE_FINAL_TIME w2;
          (settledWeight, w4) = measureSettledWeight e 5 2 w3;
          d = settledWeight - initialWeight;
          f2 = f1\<lparr>dispensedWeight := (if d < 0 then 0 else d),
                  currentWeight := settledWeight,
                  weightReadings := replicate movingAvgSize settledWeight\<rparr>
      in if dispensedWeight f2 < targetAmount * FEED_COMPLETE_FACTOR
            \<and> retryCount f2 < FEED_RETRY_TIMEOUT then
           (let f3 = f2\<lparr>retryCount := retryCount f2 + 1\<rparr>;
                w5 = emit (Lcd ''Retry #%d'') (emit (Lcd ''Need more food'') w4);
                w6 = delay 300 (servo_write SERVO_OPEN_ANGLE w5)
            in Some (f3\<lparr>preCloseExecuted := False\<rparr>, w6))
         else if dispensedWeight f2 \<ge> targetAmount * FEED_COMPLETE_FACTOR then
           (case nonBlockingWait QUICK_DISPLAY_TIME 0
                   (emit (Lcd ''Dispensed: %.1fg'') (emit (Lcd ''Target reached!'') w4)) of
              None \<Rightarrow> None
            | Some w5 \<Rightarrow> Some (f2\<lparr>targetReached := True\<rparr>, w5))
         else if retryCount f2 \<ge> FEED_RETRY_TIMEOUT then
           (case nonBlockingWait INFO_DISPLAY_TIME 0
                   (emit (Lcd ''%.1fg dispensed'') (emit (Lcd ''Warning: Only'') w4)) of
              None \<Rightarrow> None
            | Some w5 \<Rightarrow> Some (f2\<lparr>targetReached := True\<rparr>, w5))
         else Some (f2, w4))"

text \<open>
  The block \<^verbatim>\<open>if (!preCloseExecuted) { ... }\<close> after the pre-close rule: the direct
  target check with its stability counter, and the emergency stop at 125 %.
\<close>

definition direct_checks :: "real \<Rightarrow> feed \<Rightarrow> world \<Rightarrow> (feed \<times> world) option" where
  "direct_checks targetAmount f w =
     (if \<not> preCloseExecuted f then
        (let (f1, w1) =
               (if dispensedWeight f \<ge> targetAmount then
                  (let fc = f\<lparr>preCloseExecuted := True\<rparr> in
                   (if stabilityCounter fc < 2
                    then fc\<lparr>stabilityCounter := stabilityCounter fc + 1\<rparr>
                    else fc\<lparr>targetReached := True\<rparr>,
                    servo_write SERVO_CLOSE_ANGLE w))
                else (f, w))
         in if dispensedWeight f1 \<ge> targetAmount * (125 / 100) then
              (case nonBlockingWait QUICK_DISPLAY_TIME 0
                      (emit (Lcd ''Excess food!'')
                         (emit (Lcd ''Warning!'') (servo_write SERVO_CLOSE_ANGLE w1))) of
                 None \<Rightarrow> None
               | Some w2 \<Rightarrow> Some (f1\<lparr>targetReached := True\<rparr>, w2))
            else Some (f1, w1))
      else Some (f, w))"

text \<open>
  The body of \<^verbatim>\<open>if (now - lastWeightRead >= WEIGHT_READ_INTERVAL)\<close>: check the scale,
  read it, update the moving average and the dispensed weight, then apply the rules.
\<close>

definition weight_read :: "env \<Rightarrow> real \<Rightarrow> real \<Rightarrow> u32 \<Rightarrow> feed \<Rightarrow> world \<Rightarrow> round option" where
  "weight_read e initialWeight targetAmount now f w =
     (let f0 = f\<lparr>lastWeightRead := now\<rparr>;
          (rdy, w1) = scale_is_ready e w;
          (recovered, w2) = (if \<not> rdy then recover_loop e 5 w1 else (True, w1))
      in if \<not> recovered then
           (case lcdMessage (Some ''Scale error!'') (Some ''Closing hatch'') LCD_TIMEOUT w2 of
              None \<Rightarrow> None
            | Some w3 \<Rightarrow>
                (case nonBlockingWait LCD_TIMEOUT 0 (servo_write SERVO_CLOSE_ANGLE w3) of
                   None \<Rightarrow> None
                 | Some w4 \<Rightarrow> Some (Returned f0 w4)))
         else
           (let (x, w3) = scale_get_units e 1 w2;
                f1 = f0\<lparr>weightReadings := (weightReadings f0)[readingIndex f0 := x],
                        readingIndex := (readingIndex f0 + 1) mod movingAvgSize\<rparr>;
                sumWeight = sum_list (weightReadings f1);
                f2 = f1\<lparr>currentWeight := sumWeight / real movingAvgSize\<rparr>;
                d = currentWeight f2 - initialWeight;
                f3 = f2\<lparr>dispensedWeight := (if d < 0 then 0 else d)\<rparr>
            in case (if \<not> preCloseExecuted f3
                        \<and> dispensedWeight f3 \<ge> targetAmount * FEED_CALIBRATION_FACTOR
                     then pre_close e initialWeight targetAmount f3 w3
                     else Some (f3, w3)) of
                 None \<Rightarrow> None
               | Some (f4, w4) \<Rightarrow>
                   (case direct_checks targetAmount f4 w4 of
                      None \<Rightarrow> None
                    | Some (f5, w5) \<Rightarrow> Some (Continues f5 w5))))"

text \<open>One round of the \<^verbatim>\<open>while\<close> loop.\<close>

definition loop_body :: "env \<Rightarrow> real \<Rightarrow> real \<Rightarrow> feed \<Rightarrow> world \<Rightarrow> round option" where
  "loop_body e initialWeight targetAmount f w =
     (let now = millis w in
      case (if now - lastWeightRead f \<ge> WEIGHT_READ_INTERVAL
            then weight_read e initialWeight targetAmount now f w
            else Some (Continues f w)) of
        None \<Rightarrow> None
      | Some (Returned f1 w1) \<Rightarrow> Some (Returned f1 w1)
      | Some (Continues f1 w1) \<Rightarrow>
          (let (f2, w2) =
                 (if now - lastDisplayUpdateF f1 \<ge> LCD_UPDATE_INTERVAL
                  then (f1\<lparr>lastDisplayUpdateF := now\<rparr>,
                        updateFeedingDisplay (dispensedWeight f1) targetAmount True w1)
                  else (f1, w1))
           in Some (Continues f2 (delay 10 w2))))"

text \<open>
  The loop \<^verbatim>\<open>while (!targetReached && (millis() - startTime < FEED_TIMEOUT))\<close>. Its result
  says whether the function left by the \<^verbatim>\<open>return\<close> inside the loop or by the loop's end.
\<close>

partial_function (option) feed_loop ::
  "env \<Rightarrow> real \<Rightarrow> real \<Rightarrow> feed \<Rightarrow> world \<Rightarrow> round option" where
  "feed_loop e initialWeight targetAmount f w =
     (if \<not> targetReached f \<and> millis w - startTime f < FEED_TIMEOUT then
        (case loop_body e initialWeight targetAmount f w of
           None \<Rightarrow> None
         | Some (Returned f1 w1) \<Rightarrow> Some (Returned f1 w1)
         | Some (Continues f1 w1) \<Rightarrow> feed_loop e initialWeight targetAmount f1 w1)
      else Some (Continues f w))"

declare feed_loop.simps [code]

definition feed_init :: "real \<Rightarrow> world \<Rightarrow> feed" where
  "feed_init initialWeight w =
     \<lparr>weightReadings = [initialWeight, initialWeight, initialWeight],
      readingIndex = 0, currentWeight = initialWeight, startTime = millis w,
      lastDisplayUpdateF = 0, lastWeightRead = 0, targetReached = False,
      preCloseExecuted = False, dispensedWeight = 0, retryCount = 0,
      stabilityCounter = 0\<rparr>"

text \<open>
  The whole function, with the local variables at the moment of return kept in the
  result: the hatch is opened, the loop runs, and after the loop the servo is closed.
\<close>

definition dispense_run :: "env \<Rightarrow> real \<Rightarrow> real \<Rightarrow> world \<Rightarrow> round option" where
  "dispense_run e initialWeight targetAmount w =
     (let f = feed_init initialWeight w;
          w1 = delay 500 (servo_write SERVO_OPEN_ANGLE w)
      in case feed_loop e initialWeight targetAmount f w1 of
           None \<Rightarrow> None
         | Some (Returned f1 w2) \<Rightarrow> Some (Returned f1 w2)
         | Some (Continues f1 w2) \<Rightarrow> Some (Continues f1 (servo_write SERVO_CLOSE_ANGLE w2)))"

text \<open>What the caller sees: the returned weight and the device.\<close>

definition dispenseFoodWithFeedback ::
  "env \<Rightarrow> real \<Rightarrow> real \<Rightarrow> world \<Rightarrow> (real \<times> world) option" where
  "dispenseFoodWithFeedback e initialWeight targetAmount w =
     (case dispense_run e initialWeight targetAmount w of
        None \<Rightarrow> None
      | Some (Returned f w1) \<Rightarrow> Some (dispensedWeight f, w1)
      | Some (Continues f w1) \<Rightarrow> Some (dispensedWeight f, w1))"

subsection \<open>checkScaleReady\<close>

text \<open>
  \<^verbatim>\<open>while (millis() - startCheck < timeout) { if (scale.is_ready()) return true; delay(50); }\<close>
  with a 16-bit \<open>timeout\<close>: the elapsed time grows by 50 ms a round and stays far below
  \<open>2 ^ 32\<close>, so the loop ends.
\<close>

lemma unat_millis_delay:
  assumes "unat (millis w - s) + d < 2 ^ 32"
  shows "unat (millis (delay d w) - s) = unat (millis w - s) + d"
proof -
  have d: "unat (word_of_nat d :: u32) = d"
    using assms by (simp add: unat_of_nat)
  have eq: "millis (delay d w) - s = (millis w - s) + word_of_nat d"
    by (simp add: millis_def delay_def)
  have "unat ((millis w - s) + word_of_nat d)
          = unat (millis w - s) + unat (word_of_nat d :: u32)"
    by (rule unat_add_lem [THEN iffD1]) (use assms d in simp)
  then show ?thesis unfolding eq d .
qed

function checkScaleReady_loop :: "env \<Rightarrow> u32 \<Rightarrow> 16 word \<Rightarrow> world \<Rightarrow> bool \<times> world" where
  "checkScaleReady_loop e startCheck timeout w =
     (if millis w - startCheck < ucast timeout then
        (let (rdy, w1) = scale_is_ready e w in
         if rdy then (True, w1)
         else checkScaleReady_loop e startCheck timeout (delay 50 w1))
      else (False, w))"
  by pat_completeness auto
termination
proof (relation "measure (\<lambda>(e, startCheck, timeout, w).
          unat (ucast timeout :: u32) - unat (millis w - startCheck))", goal_cases)
  case 1
  show ?case by simp
next
  case (2 e startCheck timeout w x xa y)
  have w1: "millis (delay 50 y) = millis (delay 50 w)"
    using 2(2,3) by (auto simp: scale_is_ready_def millis_def delay_def)
  have "unat (ucast timeout :: u32) \<le> unat timeout"
    by (simp add: unsigned_ucast_eq take_bit_nat_less_eq_self)
  moreover have "unat timeout < 2 ^ 16"
    using unsigned_less [of timeout, where 'a = nat] by simp
  ultimately have b: "unat (ucast timeout :: u32) < 65536" by simp
  have lt: "unat (millis w - startCheck) < unat (ucast timeout :: u32)"
    using 2(1) by (simp add: word_less_nat_alt)
  have "unat (millis (delay 50 w) - startCheck) = unat (millis w - startCheck) + 50"
    by (rule unat_millis_delay) (use lt b in simp)
  then show ?case using lt w1 by simp
qed

declare checkScaleReady_loop.simps [simp del]

definition checkScaleReady :: "env \<Rightarrow> 16 word \<Rightarrow> world \<Rightarrow> bool \<times> world" where
  "checkScaleReady e timeout w = checkScaleReady_loop e (millis w) timeout w"

subsection \<open>checkExistingFood\<close>

text \<open>
  Waiting for the button to be released
  (\<^verbatim>\<open>while (digitalRead(MANUAL_FEED_BUTTON_PIN) == LOW) { delay(BUTTON_RELEASE_TIME); yield(); }\<close>):
  this loop lasts as long as the button is held.
\<close>

partial_function (option) release_loop :: "env \<Rightarrow> world \<Rightarrow> world option" where
  "release_loop e w =
     (let (low, w1) = button_read e w in
      if low then release_loop e (delay BUTTON_RELEASE_TIME w1) else Some w1)"

declare release_loop.simps [code]

definition NOTIFY_TIMEOUT :: u32 where [simp]: "NOTIFY_TIMEOUT = 20000"

text \<open>
  The button check at the start of a round of the wait: a press is taken when the button
  is still down 50 ms later, and then the release is awaited. The result says whether the
  button was pressed.
\<close>

definition button_round :: "env \<Rightarrow> world \<Rightarrow> (bool \<times> world) option" where
  "button_round e w =
     (let (low1, w1) = button_read e w in
      if low1 then
        (let (low2, w2) = button_read e (delay BUTTON_DEBOUNCE_TIME w1) in
         if low2 then map_option (Pair True) (release_loop e w2)
         else Some (False, w2))
      else Some (False, w1))"

text \<open>
  The wait for a button press, 20 s at most: a round ends the wait when the button was
  pressed (\<^verbatim>\<open>break\<close>); otherwise it updates the countdown and waits 100 ms.
\<close>

partial_function (option) notify_loop :: "env \<Rightarrow> u32 \<Rightarrow> world \<Rightarrow> (bool \<times> world) option" where
  "notify_loop e notifyStartTime w =
     (if millis w - notifyStartTime < NOTIFY_TIMEOUT then
        (case button_round e w of
           None \<Rightarrow> None
         | Some (buttonPressed, w3) \<Rightarrow>
             if buttonPressed then Some (True, w3)
             else
               (let el = millis w3 - notifyStartTime;
                    w4 = (if el div 1000 \<noteq> (el - 100) div 1000
                          then emit (LcdNum (sint ((NOTIFY_TIMEOUT - el) div 1000)))
                                 (emit (Lcd ''  '') w3)
                          else w3)
                in notify_loop e notifyStartTime (delay 100 w4)))
      else Some (False, w))"

declare notify_loop.simps [code]

definition checkExistingFood :: "env \<Rightarrow> real \<Rightarrow> real \<Rightarrow> world \<Rightarrow> (bool \<times> world) option" where
  "checkExistingFood e currentWeight' threshold w =
     (if currentWeight' \<ge> threshold then
        do {
          w1 \<leftarrow> nonBlockingWait INFO_DISPLAY_TIME 0
                  (emit (Lcd ''Weight: %.1fg'') (emit (Lcd ''Food detected!'') w));
          let w2 = emit (Lcd ''Btn:feed / Wait:20s'') (emit (Lcd ''Food already >10g'') w1);
          (buttonPressed, w3) \<leftarrow> notify_loop e (millis w2) w2;
          if \<not> buttonPressed then
            do {
              w4 \<leftarrow> nonBlockingWait QUICK_DISPLAY_TIME 0
                      (emit (Lcd ''Bowl already has:'') (emit (Lcd ''Feeding canceled'') w3));
              w5 \<leftarrow> nonBlockingWait INFO_DISPLAY_TIME 0
                      (emit (Lcd ''%.1fg in bowl'') (emit (Lcd ''Food weight:'') w4));
              Some (False, w5)
            }
          else
            do {
              w4 \<leftarrow> nonBlockingWait QUICK_DISPLAY_TIME 0
                      (emit (Lcd ''Adding more food'') (emit (Lcd ''Continuing...'') w3));
              Some (True, w4)
            }
        }
      else Some (True, w))"

subsection \<open>showFeedingResults and feeding\<close>

text \<open>Conversion of a \<^verbatim>\<open>float\<close> to \<^verbatim>\<open>int\<close>: towards zero.\<close>

definition to_int :: "real \<Rightarrow> int" where
  "to_int x = (if 0 \<le> x then \<lfloor>x\<rfloor> else \<lceil>x\<rceil>)"

definition showFeedingResults :: "real \<Rightarrow> real \<Rightarrow> real \<Rightarrow> world \<Rightarrow> world option" where
  "showFeedingResults initialWeight finalWeight targetAmount w =
     (let d = finalWeight - initialWeight;
          dispensed = (if d < 0 then 0 else d);
          pct = to_int (dispensed / targetAmount * 100);
          feedPct = (if pct < 0 then 0 else if pct > 999 then 999 else pct);
          qualityMsg = (if feedPct \<ge> 95 \<and> feedPct \<le> 105 then ''Perfect portion!''
                        else if feedPct < 80 then ''Underfed - retry?''
                        else if feedPct > 120 then ''Overfed - adjust''
                        else ''Good enough'')
      in do {
        w1 \<leftarrow> lcdMessage (Some ''Feeding complete'') (Some ''Added: %.1fg'') INFO_DISPLAY_TIME w;
        w2 \<leftarrow> lcdMessage (Some ''Accuracy: %d%%'') (Some qualityMsg) INFO_DISPLAY_TIME w1;
        w3 \<leftarrow> nonBlockingWait INFO_DISPLAY_TIME 0 w2;
        lcdMessage (Some ''Bowl now contains'') (Some ''Total: %.1fg'') INFO_DISPLAY_TIME w3
      })"

text \<open>
  Steps 5 and 6 of feeding, after the dispense: the final measurement, the results on the
  display, and the report to the server.
\<close>

definition report_feeding :: "env \<Rightarrow> bool \<Rightarrow> real \<Rightarrow> world \<Rightarrow> world option" where
  "report_feeding e isScheduled initialWeight w =
     do {
       w1 \<leftarrow> nonBlockingWait (word_of_nat SETTLE_FINAL_TIME) 0
               (emit (Lcd ''weight...'') (emit (Lcd ''Measuring final'') w));
       let (finalWeight, w2) = measureSettledWeight e 5 5 w1;
       w3 \<leftarrow> showFeedingResults initialWeight finalWeight FEED_WEIGHT w2;
       let d = finalWeight - initialWeight;
       let dispensed = (if d < 0 then 0 else d);
       let foodLevel = constrain
             ((FEED_TOTAL_WEIGHT - dispensed) / FEED_TOTAL_WEIGHT * 100) 0 100;
       let (distanceCm, w4) = getDistance e w3;
       let waterLevel =
             (if distanceCm > 0
              then constrain ((DISTANCE_WATER_EMPTY - distanceCm)
                     / (DISTANCE_WATER_EMPTY - DISTANCE_WATER_FULL) * 100) 0 100
              else 50);
       let (on, w5) = online e w4;
       Some (if on then emit (FeedingComplete isScheduled foodLevel waterLevel) w5 else w5)
     }"

text \<open>
  feeding: the scale check (step 1), the bowl check (step 2), the dispense (steps 3 and
  4) and the report. It writes nothing to the servo itself.
\<close>

definition feeding :: "env \<Rightarrow> bool \<Rightarrow> world \<Rightarrow> world option" where
  "feeding e isScheduled w =
     (let (on, w0) = online e w;
          w1 = (if on
                then emit (LogEvent ''feeding_start''
                             (if isScheduled then ''Scheduled feeding initiated''
                              else ''Manual feeding initiated'')) w0
                else w0)
      in do {
        w2 \<leftarrow> nonBlockingWait QUICK_DISPLAY_TIME 0
                (emit (Lcd ''Checking scale'') (emit (Lcd ''Feeding time'') w1));
        let (ready, w3) = checkScaleReady e SCALE_TIMEOUT w2;
        if \<not> ready then
          nonBlockingWait INFO_DISPLAY_TIME 0
            (emit (Lcd ''Scale not ready!'') (emit (Lcd ''Error'') w3))
        else
          do {
            w4 \<leftarrow> nonBlockingWait QUICK_DISPLAY_TIME 0 (emit (Lcd ''Checking bowl...'') w3);
            let (stable, w5) = getStableWeight e 5 2 WEIGHT_STABILITY_THRESHOLD w4;
            let currentFoodWeight = (if stable < 0 then 0 else stable);
            (continue, w6) \<leftarrow> checkExistingFood e currentFoodWeight FEED_THRESHOLD w5;
            if \<not> continue then Some w6
            else
              do {
                let initialWeight = currentFoodWeight;
                w7 \<leftarrow> nonBlockingWait QUICK_DISPLAY_TIME 0
                        (emit (Lcd ''Opening hatch...'') (emit (Lcd ''Starting feed'') w6));
                (dispensedAmount, w8) \<leftarrow> dispenseFoodWithFeedback e initialWeight FEED_WEIGHT w7;
                report_feeding e isScheduled initialWeight w8
              }
          }
      })"

section \<open>Auxiliary definitions for stating the properties\<close>

text \<open>The local variables and the device at the end of a round or of the loop.\<close>

fun round_feed :: "round \<Rightarrow> feed" where
  "round_feed (Returned f w) = f"
| "round_feed (Continues f w) = f"

fun round_world :: "round \<Rightarrow> world" where
  "round_world (Returned f w) = w"
| "round_world (Continues f w) = w"

fun returned :: "round \<Rightarrow> bool" where
  "returned (Returned f w) = True"
| "returned (Continues f w) = False"

text \<open>
  The local variables after the scale has been read and the moving average and the
  dispensed weight have been updated (the middle of \<open>weight_read\<close>).
\<close>

definition after_read :: "real \<Rightarrow> u32 \<Rightarrow> real \<Rightarrow> feed \<Rightarrow> feed" where
  "after_read i now x f =
     (let f0 = f\<lparr>lastWeightRead := now\<rparr>;
          f1 = f0\<lparr>weightReadings := (weightReadings f0)[readingIndex f0 := x],
                  readingIndex := (readingIndex f0 + 1) mod movingAvgSize\<rparr>;
          f2 = f1\<lparr>currentWeight := sum_list (weightReadings f1) / real movingAvgSize\<rparr>;
          d = currentWeight f2 - i
      in f2\<lparr>dispensedWeight := (if d < 0 then 0 else d)\<rparr>)"

text \<open>
  The pre-close stage of a weight reading: the pre-close rule when its condition holds,
  nothing otherwise.
\<close>

definition pre_stage :: "env \<Rightarrow> real \<Rightarrow> real \<Rightarrow> feed \<Rightarrow> world \<Rightarrow> (feed \<times> world) option" where
  "pre_stage e i t f w =
     (if \<not> preCloseExecuted f \<and> dispensedWeight f \<ge> t * FEED_CALIBRATION_FACTOR
      then pre_close e i t f w else Some (f, w))"

text \<open>The device after the scale has been asked, and asked again if it was not ready.\<close>

definition asked :: "env \<Rightarrow> world \<Rightarrow> bool \<times> world" where
  "asked e w =
     (if fst (scale_is_ready e w) then (True, snd (scale_is_ready e w))
      else recover_loop e 5 (snd (scale_is_ready e w)))"

text \<open>
  The scheduling loop calls checkWaterLevel again and again; \<open>water_run e gaps\<close> makes
  one call after each of the given waiting times (in ms).
\<close>

fun water_run :: "env \<Rightarrow> nat list \<Rightarrow> water \<times> world \<Rightarrow> (water \<times> world) option" where
  "water_run e [] s = Some s"
| "water_run e (gap # gaps) (ws, w) =
     (case checkWaterLevel e ws (delay gap w) of
        None \<Rightarrow> None
      | Some s' \<Rightarrow> water_run e gaps s')"

text \<open>
  Concrete environments and devices for the examples: a scale with the given readiness
  and readings, a sonar with the given echo times, the NewPing conversion
  (\<^verbatim>\<open>max((echo + 28) / 57, echo ? 1 : 0)\<close>), and no network.
\<close>

definition test_env :: "(nat \<Rightarrow> bool) \<Rightarrow> (nat \<Rightarrow> nat \<Rightarrow> real) \<Rightarrow> (nat \<Rightarrow> u32) \<Rightarrow> env" where
  "test_env rdy units pings =
     \<lparr>is_ready = rdy, get_units = units, ping = pings,
      convert_cm = (\<lambda>uS. max ((uS + 28) div 57) (if uS = 0 then 0 else 1)),
      wifi_connected = (\<lambda>k. False), isWebConnected = (\<lambda>k. False),
      button_low = (\<lambda>k. False)\<rparr>"

definition world0 :: "nat \<Rightarrow> world" where
  "world0 t = \<lparr>clock = t, ready_calls = 0, units_calls = 0, ping_calls = 0, wifi_calls = 0,
     web_calls = 0, button_reads = 0, servo_log = [], relay_pin = False, events = []\<rparr>"

text \<open>
  Four scales for a target of 65 g and an empty bowl: readings that jump to 300 g at once;
  readings of 195 g, which make the moving average of the first poll exactly the target;
  fast readings of 180 g with settled readings (taken with 2 samples) of 60 g; and a
  scale that never answers.
\<close>

definition jump_scale :: env where
  "jump_scale = test_env (\<lambda>k. True) (\<lambda>k n. 300) (\<lambda>k. 0)"

definition exact_scale :: env where
  "exact_scale = test_env (\<lambda>k. True) (\<lambda>k n. 195) (\<lambda>k. 0)"

definition short_scale :: env where
  "short_scale = test_env (\<lambda>k. True) (\<lambda>k n. if n = 1 then 180 else 60) (\<lambda>k. 0)"

definition dead_scale :: env where
  "dead_scale = test_env (\<lambda>k. False) (\<lambda>k n. 0) (\<lambda>k. 0)"



section \<open>Properties of the sample filters\<close>

lemmas world_ops = delay_def emit_def servo_write_def relay_write_def scale_is_ready_def
  scale_get_units_def sonar_ping_def online_def web_online_def

lemma stats_loop_filter:
  "stats_loop xs s = stats_loop (filter (\<lambda>x. x \<noteq> 0) xs) s"
  by (induction xs arbitrary: s) simp_all

lemma stats_loop_valid:
  "validReadings (stats_loop xs s) = validReadings s + int (length (filter (\<lambda>x. x \<noteq> 0) xs))"
  by (induction xs arbitrary: s) simp_all

lemma stats_loop_zeros: "stats_loop (replicate n 0) s = s"
  by (induction n) simp_all

lemma read_weights_zero_units:
  assumes "\<forall>k. get_units e k samples = 0"
  shows "fst (read_weights e samples n w) = replicate n 0"
  using assms
  by (induction n arbitrary: w) (simp_all add: scale_is_ready_def scale_get_units_def split_beta)

lemma read_weights_not_ready:
  assumes "\<forall>k. \<not> is_ready e k"
  shows "fst (read_weights e samples n w) = replicate n 0"
  using assms
  by (induction n arbitrary: w) (simp_all add: scale_is_ready_def split_beta)


text \<open>
  C10. In getStableWeight every reading that is exactly 0, a failed read included (it is
  recorded as 0), is left out of the minimum, maximum, total and count of valid readings;
  so when the scale is ready and reports exactly 0 g each time, no reading is valid, the
  result comes from the all-readings-failed branch, and it is the result of a scale that
  never answered.
\<close>

theorem getStableWeight_zero_means_failed:
  "stats_loop xs s = stats_loop (filter (\<lambda>x. x \<noteq> 0) xs) s
   \<and> validReadings (stats_loop xs s) = validReadings s + int (length (filter (\<lambda>x. x \<noteq> 0) xs))
   \<and> (\<not> is_ready e (ready_calls w) \<longrightarrow> hd (fst (read_weights e samples (Suc n) w)) = 0)
   \<and> ((\<forall>k. get_units e k samples = 0) \<longrightarrow>
        validReadings (fst (stable_stats e numReadings samples w)) = 0
        \<and> fst (getStableWeight e numReadings samples threshold w) = 0
        \<and> fst (getStableWeight e numReadings samples threshold w)
            = fst (getStableWeight (e\<lparr>is_ready := \<lambda>k. False\<rparr>) numReadings samples threshold w))"
proof (intro conjI impI)
  show "stats_loop xs s = stats_loop (filter (\<lambda>x. x \<noteq> 0) xs) s"
    by (rule stats_loop_filter)
  show "validReadings (stats_loop xs s) = validReadings s + int (length (filter (\<lambda>x. x \<noteq> 0) xs))"
    by (rule stats_loop_valid)
  show "hd (fst (read_weights e samples (Suc n) w)) = 0" if "\<not> is_ready e (ready_calls w)"
    using that by (simp add: scale_is_ready_def split_beta)
next
  assume z: "\<forall>k. get_units e k samples = 0"
  have st: "fst (stable_stats e numReadings samples w) = stats_init"
    by (simp add: stable_stats_def split_beta read_weights_zero_units [OF z] stats_loop_zeros)
  have st': "fst (stable_stats (e\<lparr>is_ready := \<lambda>k. False\<rparr>) numReadings samples w) = stats_init"
    by (simp add: stable_stats_def split_beta read_weights_not_ready stats_loop_zeros)
  show "validReadings (fst (stable_stats e numReadings samples w)) = 0"
    by (simp add: st stats_init_def)
  show g: "fst (getStableWeight e numReadings samples threshold w) = 0"
    by (simp add: getStableWeight_def split_beta st stats_init_def)
  show "fst (getStableWeight e numReadings samples threshold w)
            = fst (getStableWeight (e\<lparr>is_ready := \<lambda>k. False\<rparr>) numReadings samples threshold w)"
    by (simp add: g) (simp add: getStableWeight_def split_beta st' stats_init_def)
qed

theorem getStableWeight_zero_means_failed_witness:
  "validReadings (fst (stable_stats (test_env (\<lambda>k. True) (\<lambda>k n. 0) (\<lambda>k. 0)) 5 2 (world0 0))) = 0
   \<and> fst (getStableWeight (test_env (\<lambda>k. True) (\<lambda>k n. 0) (\<lambda>k. 0)) 5 2 (3 / 10) (world0 0)) = 0
   \<and> hd (fst (read_weights (test_env (\<lambda>k. False) (\<lambda>k n. 7) (\<lambda>k. 0)) 2 (Suc 4) (world0 0))) = 0"
  using getStableWeight_zero_means_failed
          [of "[]" stats_init "test_env (\<lambda>k. True) (\<lambda>k n. 0) (\<lambda>k. 0)" "world0 0" 2 4 5 "3 / 10"]
        getStableWeight_zero_means_failed
          [of "[]" stats_init "test_env (\<lambda>k. False) (\<lambda>k n. 7) (\<lambda>k. 0)" "world0 0" 2 4 5 "3 / 10"]
  by (simp add: test_env_def world0_def)




section \<open>Properties of the non-blocking wait\<close>

text \<open>
  The program sees the clock modulo \<open>2 ^ 32\<close>; a difference of two readings is the time
  that passed between them as long as that is less than \<open>2 ^ 32\<close> ms.
\<close>

lemma millis_elapsed:
  assumes "c0 \<le> c" "c - c0 < 2 ^ 32"
  shows "unat (word_of_nat c - word_of_nat c0 :: u32) = c - c0"
proof -
  have "(word_of_nat c - word_of_nat c0 :: u32) = word_of_nat (c - c0)"
    using assms(1) by (simp add: of_nat_diff)
  then show ?thesis using assms(2) by (simp add: unat_of_nat)
qed

lemma ceil10_ge: "m = (a + 9) div 10 \<Longrightarrow> (a::nat) \<le> 10 * m"
  by presburger

lemma ceil10_lt: "m = (a + 9) div 10 \<Longrightarrow> k < m \<Longrightarrow> 10 * k < (a::nat)"
  by presburger

text \<open>
  The waiting loop, started \<open>10 * k\<close> ms after \<open>startWait\<close>, runs until \<open>10 * m\<close> ms
  after it, where \<open>m\<close> is the requested time in slices of 10 ms, rounded up.
\<close>

lemma wait_loop_run:
  assumes "10 * m < 2 ^ 32" "k \<le> m" "m = (unat a + 9) div 10"
    and "startWait = word_of_nat c0" "clock w = c0 + 10 * k"
  shows "wait_loop startWait a w = Some (w\<lparr>clock := c0 + 10 * m\<rparr>)"
  using assms(2,5)
proof (induction "m - k" arbitrary: k w)
  case 0
  then have km: "k = m" by simp
  have "unat (word_of_nat (c0 + 10 * m) - word_of_nat c0 :: u32) = c0 + 10 * m - c0"
    by (rule millis_elapsed) (use assms(1) in simp_all)
  then have el: "unat (millis w - startWait) = 10 * m"
    using "0.prems"(2) km assms(4) by (simp add: millis_def)
  have "unat a \<le> 10 * m" using assms(3) by (rule ceil10_ge)
  then have "\<not> millis w - startWait < a"
    using el by (simp add: word_less_nat_alt)
  moreover have "w\<lparr>clock := c0 + 10 * m\<rparr> = w" using "0.prems"(2) km by simp
  ultimately show ?case by (subst wait_loop.simps) simp
next
  case (Suc d)
  then have lt: "k < m" by simp
  have "unat (word_of_nat (c0 + 10 * k) - word_of_nat c0 :: u32) = c0 + 10 * k - c0"
    by (rule millis_elapsed) (use assms(1) lt in simp_all)
  then have el: "unat (millis w - startWait) = 10 * k"
    using Suc.prems assms(4) by (simp add: millis_def)
  have "10 * k < unat a" using assms(3) lt by (rule ceil10_lt)
  then have c: "millis w - startWait < a"
    using el by (simp add: word_less_nat_alt)
  have "wait_loop startWait a (delay 10 w) = Some ((delay 10 w)\<lparr>clock := c0 + 10 * m\<rparr>)"
  proof (rule Suc.hyps(1))
    show "d = m - Suc k" using Suc.hyps(2) by simp
    show "Suc k \<le> m" using lt by simp
    show "clock (delay 10 w) = c0 + 10 * Suc k" using Suc.prems by (simp add: delay_def)
  qed
  then show ?case using c by (subst wait_loop.simps) (simp add: delay_def)
qed

lemma wait_loop_from_now:
  assumes "unat a \<le> 4294967290"
  shows "wait_loop (millis w) a w = Some (delay (10 * ((unat a + 9) div 10)) w)"
proof -
  have "10 * ((unat a + 9) div 10) < (2::nat) ^ 32" using assms by simp presburger
  then show ?thesis
    using wait_loop_run [of "(unat a + 9) div 10" 0 a "millis w" "clock w" w]
    by (simp add: millis_def delay_def)
qed

lemma nonBlockingWait_plain:
  assumes "unat waitTime \<le> 4294967290"
  shows "nonBlockingWait waitTime 0 w = Some (delay (10 * ((unat waitTime + 9) div 10)) w)"
  using assms by (simp add: nonBlockingWait_def wait_loop_from_now)

lemma nonBlockingWait_2000 [simp]: "nonBlockingWait 2000 0 w = Some (delay 2000 w)"
  by (simp add: nonBlockingWait_plain)

lemma nonBlockingWait_3000 [simp]: "nonBlockingWait 3000 0 w = Some (delay 3000 w)"
  by (simp add: nonBlockingWait_plain)

text \<open>
  C8, as stated, fails: called 5 s after the message went up, with a requested wait of
  2 s, nonBlockingWait returns at once; the device is as it was, and no time has passed.
\<close>

theorem nonBlockingWait_shortened_counterexample:
  "nonBlockingWait 2000 5000 (world0 10000) = Some (world0 10000)
   \<and> millis (world0 10000) - millis (world0 10000) < (2000 :: u32)"
  by (simp add: nonBlockingWait_def millis_def world0_def)

text \<open>
  C8, amended. For a requested time of at most 4294967290 ms:
  with \<open>startDisplayTime = 0\<close> the function waits the requested time, rounded up to a
  multiple of the 10 ms slice; with \<open>startDisplayTime\<close> not 0 and less than
  \<open>LCD_TIMEOUT\<close> elapsed since then, it waits the larger of the requested time and of
  what is left of \<open>LCD_TIMEOUT\<close>, rounded up likewise, which is at least the
  requested time; with \<open>startDisplayTime\<close> not 0 and \<open>LCD_TIMEOUT\<close> or more elapsed
  since then, it returns at once without waiting, whatever the requested time.
\<close>

theorem nonBlockingWait_amended:
  assumes "unat waitTime \<le> 4294967290"
  shows "(startDisplayTime = 0 \<longrightarrow>
            nonBlockingWait waitTime startDisplayTime w
              = Some (delay (10 * ((unat waitTime + 9) div 10)) w)
            \<and> unat waitTime \<le> 10 * ((unat waitTime + 9) div 10))
     \<and> (startDisplayTime \<noteq> 0 \<and> millis w - startDisplayTime < LCD_TIMEOUT \<longrightarrow>
            (let a = max waitTime (LCD_TIMEOUT - (millis w - startDisplayTime)) in
             nonBlockingWait waitTime startDisplayTime w
               = Some (delay (10 * ((unat a + 9) div 10)) w)
             \<and> unat waitTime \<le> 10 * ((unat a + 9) div 10)
             \<and> unat (LCD_TIMEOUT - (millis w - startDisplayTime)) \<le> 10 * ((unat a + 9) div 10)))
     \<and> (startDisplayTime \<noteq> 0 \<and> LCD_TIMEOUT \<le> millis w - startDisplayTime \<longrightarrow>
            nonBlockingWait waitTime startDisplayTime w = Some w)"
proof (intro conjI impI)
  assume "startDisplayTime = 0"
  then show "nonBlockingWait waitTime startDisplayTime w
              = Some (delay (10 * ((unat waitTime + 9) div 10)) w)"
    using assms by (simp add: nonBlockingWait_plain)
  show "unat waitTime \<le> 10 * ((unat waitTime + 9) div 10)"
    by (rule ceil10_ge) simp
next
  assume h: "startDisplayTime \<noteq> 0 \<and> millis w - startDisplayTime < LCD_TIMEOUT"
  define a where "a = max waitTime (LCD_TIMEOUT - (millis w - startDisplayTime))"
  have "millis w - startDisplayTime \<le> LCD_TIMEOUT" using h by (simp add: less_imp_le)
  then have "unat (LCD_TIMEOUT - (millis w - startDisplayTime))
               = unat LCD_TIMEOUT - unat (millis w - startDisplayTime)"
    by (rule unat_sub)
  then have r: "unat (LCD_TIMEOUT - (millis w - startDisplayTime)) \<le> 3000" by simp
  have a: "unat a \<le> 4294967290" "unat waitTime \<le> unat a"
    "unat (LCD_TIMEOUT - (millis w - startDisplayTime)) \<le> unat a"
    using assms r by (simp_all add: a_def max_def word_le_nat_alt)
  have up: "unat a \<le> 10 * ((unat a + 9) div 10)" by (rule ceil10_ge) simp
  have "nonBlockingWait waitTime startDisplayTime w = wait_loop (millis w) a w"
  proof -
    have "0 < startDisplayTime" using h by (simp add: word_neq_0_conv)
    moreover have "\<not> 3000 \<le> millis w - startDisplayTime" using h by (simp add: not_le)
    ultimately show ?thesis by (simp add: nonBlockingWait_def a_def Let_def)
  qed
  then have "nonBlockingWait waitTime startDisplayTime w
               = Some (delay (10 * ((unat a + 9) div 10)) w)"
    using a(1) by (simp add: wait_loop_from_now)
  then show "let a = max waitTime (LCD_TIMEOUT - (millis w - startDisplayTime)) in
             nonBlockingWait waitTime startDisplayTime w
               = Some (delay (10 * ((unat a + 9) div 10)) w)
             \<and> unat waitTime \<le> 10 * ((unat a + 9) div 10)
             \<and> unat (LCD_TIMEOUT - (millis w - startDisplayTime)) \<le> 10 * ((unat a + 9) div 10)"
    using a up unfolding Let_def a_def [symmetric] by linarith
next
  assume "startDisplayTime \<noteq> 0 \<and> LCD_TIMEOUT \<le> millis w - startDisplayTime"
  then show "nonBlockingWait waitTime startDisplayTime w = Some w"
    by (simp add: nonBlockingWait_def word_neq_0_conv)
qed

theorem nonBlockingWait_amended_witness:
  "nonBlockingWait 25 0 (world0 7) = Some (delay 30 (world0 7))
   \<and> nonBlockingWait 500 9000 (world0 10000) = Some (delay 2000 (world0 10000))
   \<and> nonBlockingWait 2000 5000 (world0 10000) = Some (world0 10000)"
  using nonBlockingWait_amended [of 25 0 "world0 7"]
        nonBlockingWait_amended [of 500 9000 "world0 10000"]
        nonBlockingWait_amended [of 2000 5000 "world0 10000"]
  by (simp add: millis_def world0_def Let_def)

section \<open>Properties of the water refill state machine\<close>

lemma ping_loop_frame:
  "relay_pin (snd (ping_loop e n acc w)) = relay_pin w
   \<and> events (snd (ping_loop e n acc w)) = events w
   \<and> servo_log (snd (ping_loop e n acc w)) = servo_log w
   \<and> clock (snd (ping_loop e n acc w)) = clock w + 10 * n"
proof (induction n arbitrary: acc w)
  case 0
  show ?case by simp
next
  case (Suc n)
  obtain total valid where acc: "acc = (total, valid)" by (cases acc)
  show ?case
    unfolding acc ping_loop.simps Let_def split_beta
    by (simp add: Suc world_ops)
qed

lemma getDistance_frame:
  "relay_pin (snd (getDistance e w)) = relay_pin w
   \<and> events (snd (getDistance e w)) = events w
   \<and> servo_log (snd (getDistance e w)) = servo_log w
   \<and> clock (snd (getDistance e w)) = clock w + 50"
  using ping_loop_frame [of e 5 "(0, 0)" w]
  by (simp add: getDistance_def split_beta)

lemma check_water_with_error:
  assumes "d \<le> 0 \<or> 400 < d"
  shows "check_water_with e now d ws w =
           Some (ws, delay 3000 (emit (Lcd ''Check ultrasonic'') (emit (Lcd ''Sensor Error'') w)))"
  using assms by (auto simp: check_water_with_def)

lemma check_water_with_low:
  assumes "0 < d" "d \<le> 400"
    and "constrain (DISTANCE_WATER_EMPTY - d) 0 (DISTANCE_WATER_EMPTY - DISTANCE_WATER_FULL)
           \<le> WATER_CRITICAL_HEIGHT"
  shows "\<exists>w'. check_water_with e now d ws w =
           Some (ws\<lparr>state := REFILL_RUNNING, stateStartTime := now, lastDisplayUpdate := now\<rparr>, w')
         \<and> relay_pin w' = relay_pin w"
  using assms by (simp add: check_water_with_def Let_def split_beta world_ops)

lemma progressBar_frame [simp]:
  "relay_pin (progressBar p w) = relay_pin w"
  "servo_log (progressBar p w) = servo_log w"
  "clock (progressBar p w) = clock w"
  by (simp_all add: progressBar_def emit_def Let_def)

lemma check_water_with_ok:
  assumes "0 < d" "d \<le> 400"
    and "\<not> constrain (DISTANCE_WATER_EMPTY - d) 0 (DISTANCE_WATER_EMPTY - DISTANCE_WATER_FULL)
           \<le> WATER_CRITICAL_HEIGHT"
  shows "\<exists>w'. check_water_with e now d ws w = Some (ws, w') \<and> relay_pin w' = relay_pin w"
  using assms by (simp add: check_water_with_def Let_def split_beta world_ops)

lemma check_water_with_total:
  "\<exists>ws' w'. check_water_with e now d ws w = Some (ws', w')
     \<and> relay_pin w' = relay_pin w
     \<and> (state ws' = state ws \<or> state ws' = REFILL_RUNNING)"
proof (cases "d \<le> 0 \<or> 400 < d")
  case True
  then show ?thesis by (simp add: check_water_with_error world_ops)
next
  case False
  then have r: "0 < d" "d \<le> 400" by auto
  show ?thesis
  proof (cases "constrain (DISTANCE_WATER_EMPTY - d) 0 (DISTANCE_WATER_EMPTY - DISTANCE_WATER_FULL)
           \<le> WATER_CRITICAL_HEIGHT")
    case True
    from check_water_with_low [OF r True, of e now ws w] show ?thesis by auto
  next
    case False
    from check_water_with_ok [OF r False, of e now ws w] show ?thesis by auto
  qed
qed

lemma refill_running_step:
  "refill_running e now ws w = (ws', w') \<Longrightarrow>
     (if REFILL_DURATION \<le> now - stateStartTime ws
      then state ws' = COOLDOWN \<and> \<not> relay_pin w' \<and> stateStartTime ws' = now
      else state ws' = state ws \<and> stateStartTime ws' = stateStartTime ws
           \<and> relay_pin w' = relay_pin w)
     \<and> ping_calls w' = ping_calls w \<and> clock w' = clock w"
  by (auto simp: refill_running_def Let_def split_beta world_ops split: if_splits)

lemma cooldown_step:
  "cooldown e now ws w = (ws', w') \<Longrightarrow>
     (if COOLDOWN_PERIOD \<le> now - stateStartTime ws
      then state ws' = CHECK_WATER
      else state ws' = state ws \<and> stateStartTime ws' = stateStartTime ws)
     \<and> relay_pin w' = relay_pin w \<and> ping_calls w' = ping_calls w \<and> clock w' = clock w"
  by (auto simp: cooldown_def Let_def split_beta world_ops split: if_splits)

lemma checkWaterLevel_total:
  "\<exists>ws' w'. checkWaterLevel e ws w = Some (ws', w')"
proof (cases "state ws")
  case CHECK_WATER
  then show ?thesis
    using check_water_with_total [of e "millis w" "fst (getDistance e w)" ws "snd (getDistance e w)"]
    by (auto simp: checkWaterLevel_def split_beta)
qed (simp_all add: checkWaterLevel_def split_beta prod_eq_iff)

text \<open>In COOLDOWN, calls made before the period is over leave the state machine where it is.\<close>

lemma cooldown_run:
  assumes "state ws = COOLDOWN" "stateStartTime ws = word_of_nat t0" "t0 \<le> clock w"
    and "clock w + sum_list gaps < t0 + 300000"
  shows "\<exists>ws' w'. water_run e gaps (ws, w) = Some (ws', w')
     \<and> state ws' = COOLDOWN \<and> stateStartTime ws' = stateStartTime ws
     \<and> relay_pin w' = relay_pin w \<and> ping_calls w' = ping_calls w
     \<and> clock w' = clock w + sum_list gaps"
  using assms
proof (induction gaps arbitrary: ws w)
  case Nil
  then show ?case by simp
next
  case (Cons gap gaps)
  obtain ws1 w1 where c: "cooldown e (millis (delay gap w)) ws (delay gap w) = (ws1, w1)"
    by force
  have "unat (word_of_nat (clock w + gap) - word_of_nat t0 :: u32) = clock w + gap - t0"
    by (rule millis_elapsed) (use Cons.prems in simp_all)
  then have "unat (millis (delay gap w) - stateStartTime ws) < 300000"
    using Cons.prems by (simp add: millis_def delay_def)
  then have "\<not> COOLDOWN_PERIOD \<le> millis (delay gap w) - stateStartTime ws"
    by (simp add: word_le_nat_alt)
  with cooldown_step [OF c] have s1: "state ws1 = COOLDOWN"
    "stateStartTime ws1 = stateStartTime ws" "relay_pin w1 = relay_pin w"
    "ping_calls w1 = ping_calls w" "clock w1 = clock w + gap"
    using Cons.prems(1) by (simp_all add: delay_def)
  have "\<exists>ws' w'. water_run e gaps (ws1, w1) = Some (ws', w')
     \<and> state ws' = COOLDOWN \<and> stateStartTime ws' = stateStartTime ws1
     \<and> relay_pin w' = relay_pin w1 \<and> ping_calls w' = ping_calls w1
     \<and> clock w' = clock w1 + sum_list gaps"
    by (rule Cons.IH) (use s1 Cons.prems in simp_all)
  moreover have "water_run e (gap # gaps) (ws, w) = water_run e gaps (ws1, w1)"
    using Cons.prems(1) c by (simp add: checkWaterLevel_def)
  ultimately show ?case using s1 by (auto simp: add.assoc)
qed

text \<open>
  C6. Every call of checkWaterLevel returns. From CHECKING, a reading in range with the
  water at or below the critical height leads to REFILLING, entered at the time of the
  call. From REFILLING, a call made once \<open>REFILL_DURATION\<close> has elapsed since the entry
  switches the relay off and leads to COOLDOWN (entered at the time of the call); an
  earlier call stays in REFILLING. In COOLDOWN no call reads the sensor or touches the relay,
  none leads to REFILLING, and the state goes back to CHECKING exactly at a call made once
  \<open>COOLDOWN_PERIOD\<close> has elapsed since the entry; any calls made before that, whatever
  the sensor would say, leave the state in COOLDOWN. A call either keeps the state or moves
  it one step along CHECKING, REFILLING, COOLDOWN, CHECKING.
\<close>

theorem water_states_cycle:
  "\<exists>ws' w'. checkWaterLevel e ws w = Some (ws', w')
     \<and> (state ws = CHECK_WATER
          \<and> 0 < fst (getDistance e w) \<and> fst (getDistance e w) \<le> 400
          \<and> constrain (DISTANCE_WATER_EMPTY - fst (getDistance e w)) 0
               (DISTANCE_WATER_EMPTY - DISTANCE_WATER_FULL) \<le> WATER_CRITICAL_HEIGHT
          \<longrightarrow> state ws' = REFILL_RUNNING \<and> stateStartTime ws' = millis w)
     \<and> (state ws = REFILL_RUNNING \<longrightarrow>
          (if REFILL_DURATION \<le> millis w - stateStartTime ws
           then state ws' = COOLDOWN \<and> \<not> relay_pin w' \<and> stateStartTime ws' = millis w
           else state ws' = REFILL_RUNNING \<and> stateStartTime ws' = stateStartTime ws
                \<and> relay_pin w' = relay_pin w))
     \<and> (state ws = COOLDOWN \<longrightarrow>
          ping_calls w' = ping_calls w \<and> relay_pin w' = relay_pin w
          \<and> state ws' \<noteq> REFILL_RUNNING
          \<and> (if COOLDOWN_PERIOD \<le> millis w - stateStartTime ws
              then state ws' = CHECK_WATER
              else state ws' = COOLDOWN \<and> stateStartTime ws' = stateStartTime ws))
     \<and> (state ws = COOLDOWN \<and> stateStartTime ws = millis w
          \<and> sum_list gaps < 300000 \<longrightarrow>
          (\<exists>ws'' w''. water_run e gaps (ws, w) = Some (ws'', w'')
             \<and> state ws'' = COOLDOWN \<and> relay_pin w'' = relay_pin w
             \<and> ping_calls w'' = ping_calls w))
     \<and> (state ws' = state ws
          \<or> (state ws, state ws') = (CHECK_WATER, REFILL_RUNNING)
          \<or> (state ws, state ws') = (REFILL_RUNNING, COOLDOWN)
          \<or> (state ws, state ws') = (COOLDOWN, CHECK_WATER))"
proof -
  have run: "\<exists>ws'' w''. water_run e gaps (ws, w) = Some (ws'', w'')
             \<and> state ws'' = COOLDOWN \<and> relay_pin w'' = relay_pin w
             \<and> ping_calls w'' = ping_calls w"
    if "state ws = COOLDOWN" "stateStartTime ws = millis w" "sum_list gaps < 300000"
    using cooldown_run [of ws "clock w" w gaps e] that by (auto simp: millis_def)
  show ?thesis
  proof (cases "state ws")
    case CHECK_WATER
    obtain d w1 where g: "getDistance e w = (d, w1)" by force
    obtain ws' w' where c: "check_water_with e (millis w) d ws w1 = Some (ws', w')"
      "state ws' = state ws \<or> state ws' = REFILL_RUNNING"
      using check_water_with_total [of e "millis w" d ws w1] by blast
    have low: "state ws' = REFILL_RUNNING \<and> stateStartTime ws' = millis w"
      if "0 < d" "d \<le> 400"
        "constrain (DISTANCE_WATER_EMPTY - d) 0 (DISTANCE_WATER_EMPTY - DISTANCE_WATER_FULL)
           \<le> WATER_CRITICAL_HEIGHT"
      using check_water_with_low [OF that, of e "millis w" ws w1] c(1) by auto
    have "checkWaterLevel e ws w = Some (ws', w')"
      using CHECK_WATER g c(1) by (simp add: checkWaterLevel_def)
    then show ?thesis using CHECK_WATER g c(2) low by auto
  next
    case REFILL_RUNNING
    obtain ws' w' where r: "refill_running e (millis w) ws w = (ws', w')" by force
    have "checkWaterLevel e ws w = Some (ws', w')"
      using REFILL_RUNNING r by (simp add: checkWaterLevel_def)
    then show ?thesis
      using REFILL_RUNNING refill_running_step [OF r] by (auto split: if_splits)
  next
    case COOLDOWN
    obtain ws' w' where r: "cooldown e (millis w) ws w = (ws', w')" by force
    have "checkWaterLevel e ws w = Some (ws', w')"
      using COOLDOWN r by (simp add: checkWaterLevel_def)
    then show ?thesis
      using COOLDOWN cooldown_step [OF r] run by (auto split: if_splits)
  qed
qed

lemma ping_loop_numeral:
  "ping_loop e (numeral n) (totalDistance, valid) w =
     (let (uS, w1) = sonar_ping e w;
          acc = (if uS > 0 then (totalDistance + convert_cm e uS, valid + 1)
                 else (totalDistance, valid))
      in ping_loop e (pred_numeral n) acc (delay 10 w1))"
  by (simp add: numeral_eq_Suc)

lemma ping_loop_1:
  "ping_loop e 1 (totalDistance, valid) w =
     (let (uS, w1) = sonar_ping e w;
          acc = (if uS > 0 then (totalDistance + convert_cm e uS, valid + 1)
                 else (totalDistance, valid))
      in (acc, delay 10 w1))"
  by (simp add: split_beta)

lemmas ping_loop_unfold = ping_loop_numeral ping_loop_1

lemma low_tank_distance:
  "fst (getDistance (test_env (\<lambda>k. False) (\<lambda>k n. 0) (\<lambda>k. 1026)) w) = 18"
  by (simp add: getDistance_def test_env_def world_ops ping_loop_unfold split_beta Let_def)

text \<open>
  The cycle at concrete states, for a tank whose sensor always reports 18 cm (1 cm of
  water, below the critical 2 cm): the call in CHECKING starts the refill; a call
  10.05 s after the entry into REFILLING switches the relay off and enters COOLDOWN; a
  call 299.999 s into the cooldown stays there, and so do 29 calls 10 s apart; the call
  at 300 s returns to CHECKING.
\<close>

theorem water_states_cycle_witness:
  "(\<exists>ws' w'. checkWaterLevel (test_env (\<lambda>k. False) (\<lambda>k n. 0) (\<lambda>k. 1026))
                 water_init (world0 1000) = Some (ws', w')
        \<and> state ws' = REFILL_RUNNING \<and> stateStartTime ws' = 1000)
   \<and> (\<exists>ws' w'. checkWaterLevel (test_env (\<lambda>k. False) (\<lambda>k n. 0) (\<lambda>k. 1026))
                 \<lparr>state = REFILL_RUNNING, stateStartTime = 1000, lastDisplayUpdate = 1000\<rparr>
                 ((world0 11050)\<lparr>relay_pin := True\<rparr>) = Some (ws', w')
        \<and> state ws' = COOLDOWN \<and> \<not> relay_pin w' \<and> stateStartTime ws' = 11050)
   \<and> (\<exists>ws' w'. checkWaterLevel (test_env (\<lambda>k. False) (\<lambda>k n. 0) (\<lambda>k. 1026))
                 \<lparr>state = COOLDOWN, stateStartTime = 11050, lastDisplayUpdate = 11050\<rparr>
                 (world0 311049) = Some (ws', w')
        \<and> state ws' = COOLDOWN \<and> ping_calls w' = 0 \<and> \<not> relay_pin w')
   \<and> (\<exists>ws' w'. water_run (test_env (\<lambda>k. False) (\<lambda>k n. 0) (\<lambda>k. 1026))
                 (replicate 29 10000)
                 (\<lparr>state = COOLDOWN, stateStartTime = 11050, lastDisplayUpdate = 11050\<rparr>,
                  world0 11050) = Some (ws', w')
        \<and> state ws' = COOLDOWN \<and> ping_calls w' = 0 \<and> \<not> relay_pin w')
   \<and> (\<exists>ws' w'. checkWaterLevel (test_env (\<lambda>k. False) (\<lambda>k n. 0) (\<lambda>k. 1026))
                 \<lparr>state = COOLDOWN, stateStartTime = 11050, lastDisplayUpdate = 11050\<rparr>
                 (world0 311050) = Some (ws', w')
        \<and> state ws' = CHECK_WATER)"
proof -
  let ?e = "test_env (\<lambda>k. False) (\<lambda>k n. 0) (\<lambda>k. 1026)"
  let ?r = "\<lparr>state = REFILL_RUNNING, stateStartTime = 1000, lastDisplayUpdate = 1000\<rparr>"
  let ?c = "\<lparr>state = COOLDOWN, stateStartTime = 11050, lastDisplayUpdate = 11050\<rparr>"
  have "sum_list (replicate 29 (10000::nat)) < 300000" by (simp add: sum_list_replicate)
  then show ?thesis
    using water_states_cycle [of ?e water_init "world0 1000" "[]"]
      water_states_cycle [of ?e ?r "(world0 11050)\<lparr>relay_pin := True\<rparr>" "[]"]
      water_states_cycle [of ?e ?c "world0 311049" "[]"]
      water_states_cycle [of ?e ?c "world0 11050" "replicate 29 10000"]
      water_states_cycle [of ?e ?c "world0 311050" "[]"]
    by (simp add: low_tank_distance constrain_def water_init_def millis_def world0_def) blast
qed

text \<open>
  C9. In CHECKING, when the filtered distance is out of range (at most 0, or above 400),
  the call shows the sensor error and returns with the state variable, the state's entry
  time and the display time stamp as they were, and with the relay pin as it was. This
  holds for the distance getDistance returns and for any distance handed to the case.
\<close>

theorem sensor_error_no_transition:
  "(state ws = CHECK_WATER \<and> (fst (getDistance e w) \<le> 0 \<or> 400 < fst (getDistance e w))
      \<longrightarrow> (\<exists>w'. checkWaterLevel e ws w = Some (ws, w')
             \<and> relay_pin w' = relay_pin w
             \<and> events w' = events w @ [Lcd ''Sensor Error'', Lcd ''Check ultrasonic'']))
   \<and> (d \<le> 0 \<or> 400 < d
      \<longrightarrow> (\<exists>w'. check_water_with e now d ws w = Some (ws, w')
             \<and> relay_pin w' = relay_pin w
             \<and> events w' = events w @ [Lcd ''Sensor Error'', Lcd ''Check ultrasonic'']))"
proof (intro conjI impI)
  assume h: "state ws = CHECK_WATER \<and> (fst (getDistance e w) \<le> 0 \<or> 400 < fst (getDistance e w))"
  then have "checkWaterLevel e ws w
     = check_water_with e (millis w) (fst (getDistance e w)) ws (snd (getDistance e w))"
    by (simp add: checkWaterLevel_def split_beta)
  also have "\<dots> = Some (ws, delay 3000 (emit (Lcd ''Check ultrasonic'')
                           (emit (Lcd ''Sensor Error'') (snd (getDistance e w)))))"
    using h by (intro check_water_with_error) simp
  finally show "\<exists>w'. checkWaterLevel e ws w = Some (ws, w')
             \<and> relay_pin w' = relay_pin w
             \<and> events w' = events w @ [Lcd ''Sensor Error'', Lcd ''Check ultrasonic'']"
    using getDistance_frame [of e w] by (simp add: world_ops)
next
  assume "d \<le> 0 \<or> 400 < d"
  then show "\<exists>w'. check_water_with e now d ws w = Some (ws, w')
             \<and> relay_pin w' = relay_pin w
             \<and> events w' = events w @ [Lcd ''Sensor Error'', Lcd ''Check ultrasonic'']"
    by (simp add: check_water_with_error world_ops)
qed

theorem sensor_error_no_transition_witness:
  "(\<exists>w'. checkWaterLevel (test_env (\<lambda>k. False) (\<lambda>k n. 0) (\<lambda>k. 0)) water_init (world0 1000)
            = Some (water_init, w')
          \<and> relay_pin w' = False
          \<and> events w' = [Lcd ''Sensor Error'', Lcd ''Check ultrasonic''])
   \<and> (\<exists>w'. check_water_with (test_env (\<lambda>k. False) (\<lambda>k n. 0) (\<lambda>k. 0)) 1000 401 water_init
              (world0 1000) = Some (water_init, w')
          \<and> relay_pin w' = False
          \<and> events w' = [Lcd ''Sensor Error'', Lcd ''Check ultrasonic''])"
proof -
  let ?e = "test_env (\<lambda>k. False) (\<lambda>k n. 0) (\<lambda>k. 0)"
  have d: "fst (getDistance ?e (world0 1000)) = 0"
    by (simp add: getDistance_def test_env_def world_ops ping_loop_unfold split_beta Let_def)
  show ?thesis
    using sensor_error_no_transition [of water_init ?e "world0 1000" 401 1000]
    by (simp add: d water_init_def) (simp add: world0_def)
qed

text \<open>
  C7: what the code does at a low reading. With the sensor at 18 cm (water height 1 cm)
  and the relay off, the call moves to REFILLING and records the entry time, but the relay
  pin is still off afterwards: the case contains no write to the relay. The same holds for
  the distance 17.5 cm of the example (water height 1.5 cm).
\<close>

theorem low_water_relay_stays_off:
  "(\<exists>w'. checkWaterLevel (test_env (\<lambda>k. False) (\<lambda>k n. 0) (\<lambda>k. 1026)) water_init (world0 1000)
            = Some (\<lparr>state = REFILL_RUNNING, stateStartTime = 1000, lastDisplayUpdate = 1000\<rparr>, w')
          \<and> relay_pin (world0 1000) = False \<and> relay_pin w' = False)
   \<and> (\<exists>w'. check_water_with (test_env (\<lambda>k. False) (\<lambda>k n. 0) (\<lambda>k. 1026)) 1000 (35 / 2)
              water_init (world0 1000)
            = Some (\<lparr>state = REFILL_RUNNING, stateStartTime = 1000, lastDisplayUpdate = 1000\<rparr>, w')
          \<and> relay_pin (world0 1000) = False \<and> relay_pin w' = False)"
  by (simp add: checkWaterLevel_def check_water_with_def getDistance_def test_env_def
      world_ops ping_loop_unfold split_beta Let_def constrain_def water_init_def
      millis_def world0_def)

text \<open>For every input, the CHECKING case leaves the relay pin as it was.\<close>

lemma checking_never_writes_relay:
  assumes "state ws = CHECK_WATER" "checkWaterLevel e ws w = Some (ws', w')"
  shows "relay_pin w' = relay_pin w"
proof -
  obtain ws1 w1 where
    "check_water_with e (millis w) (fst (getDistance e w)) ws (snd (getDistance e w))
       = Some (ws1, w1)" "relay_pin w1 = relay_pin (snd (getDistance e w))"
    using check_water_with_total
            [of e "millis w" "fst (getDistance e w)" ws "snd (getDistance e w)"] by blast
  then show ?thesis
    using assms getDistance_frame [of e w] by (simp add: checkWaterLevel_def split_beta)
qed

section \<open>Properties of the feeding dispense controller\<close>

subsection \<open>The loops over the scale\<close>

lemma recover_loop_frame:
  "clock w \<le> clock (snd (recover_loop e n w))
   \<and> clock (snd (recover_loop e n w)) \<le> clock w + 100 * n
   \<and> servo_log (snd (recover_loop e n w)) = servo_log w
   \<and> events (snd (recover_loop e n w)) = events w"
proof (induction n arbitrary: w)
  case 0
  show ?case by simp
next
  case (Suc n)
  let ?w1 = "snd (scale_is_ready e (delay 100 w))"
  have c: "clock ?w1 = clock w + 100" "servo_log ?w1 = servo_log w" "events ?w1 = events w"
    by (simp_all add: world_ops)
  show ?case using Suc [of ?w1] c by (simp add: split_beta)
qed

lemma settle_loop_frame:
  "clock w \<le> clock (snd (settle_loop e s i n acc w))
   \<and> clock (snd (settle_loop e s i n acc w)) \<le> clock w + 100 * n
   \<and> servo_log (snd (settle_loop e s i n acc w)) = servo_log w
   \<and> (Lcd m \<in> set (events (snd (settle_loop e s i n acc w))) \<longleftrightarrow> Lcd m \<in> set (events w))"
proof (induction n arbitrary: w i acc)
  case 0
  show ?case by simp
next
  case (Suc n)
  obtain sw v where acc: "acc = (sw, v)" by (cases acc)
  let ?w1 = "snd (scale_is_ready e w)"
  let ?w3 = "delay 100 (emit (LcdNum (i + 1)) (snd (scale_get_units e s ?w1)))"
  have c1: "clock ?w1 = clock w" "servo_log ?w1 = servo_log w" "events ?w1 = events w"
    by (simp_all add: world_ops)
  have c3: "clock ?w3 = clock w + 100" "servo_log ?w3 = servo_log w"
    "Lcd m \<in> set (events ?w3) \<longleftrightarrow> Lcd m \<in> set (events w)"
    by (simp_all add: world_ops)
  show ?case
  proof (cases "fst (scale_is_ready e w)")
    case True
    then show ?thesis
      using Suc [of ?w3 "i + 1" "(sw + fst (scale_get_units e s ?w1), v + 1)"] c3
      by (simp add: acc split_beta)
  next
    case False
    then show ?thesis
      using Suc [of ?w1 "i + 1" "(sw, v)"] c1
      by (simp add: acc split_beta)
  qed
qed

lemma measureSettledWeight_frame:
  "clock w \<le> clock (snd (measureSettledWeight e n s w))
   \<and> clock (snd (measureSettledWeight e n s w)) \<le> clock w + 100 * nat n
   \<and> servo_log (snd (measureSettledWeight e n s w)) = servo_log w
   \<and> (Lcd m \<in> set (events (snd (measureSettledWeight e n s w))) \<longleftrightarrow> Lcd m \<in> set (events w))"
  using settle_loop_frame [of w e s 0 "nat n" "(0, 0)" m]
  by (simp add: measureSettledWeight_def split_beta)

subsection \<open>The pre-close rule and the block after it\<close>

text \<open>
  The pre-close rule always returns, within 5.5 s; it keeps the retry counter at 2 or
  below; the stability counter and the ``Excess food!'' message are not its business; it
  leaves the pre-close flag cleared only with a dispensed weight below the completion
  threshold; and it sets the target flag only with the dispensed weight at or above that
  threshold, or with the retries exhausted.
\<close>

lemma pre_close_total:
  assumes "retryCount f \<le> 2"
  shows "\<exists>f' w'. pre_close e i t f w = Some (f', w')
     \<and> startTime f' = startTime f \<and> retryCount f' \<le> 2
     \<and> stabilityCounter f' = stabilityCounter f
     \<and> clock w + 2000 \<le> clock w' \<and> clock w' \<le> clock w + 5500
     \<and> (Lcd ''Excess food!'' \<in> set (events w') \<longleftrightarrow> Lcd ''Excess food!'' \<in> set (events w))
     \<and> (preCloseExecuted f' \<or> (dispensedWeight f' < t * (95 / 100) \<and> 0 \<le> dispensedWeight f'))
     \<and> (targetReached f' \<longrightarrow>
           targetReached f \<or> t * (95 / 100) \<le> dispensedWeight f' \<or> retryCount f' = 2)"
proof -
  let ?w3 = "delay 2000 (emit (Lcd ''Food settling'')
               (emit (Lcd ''Almost there...'') (servo_write 180 w)))"
  obtain sw w4 where m: "measureSettledWeight e 5 2 ?w3 = (sw, w4)" by force
  have "clock ?w3 = clock w + 2000"
    "Lcd ''Excess food!'' \<in> set (events ?w3) \<longleftrightarrow> Lcd ''Excess food!'' \<in> set (events w)"
    by (simp_all add: world_ops)
  then have c: "clock w + 2000 \<le> clock w4" "clock w4 \<le> clock w + 2500"
    "Lcd ''Excess food!'' \<in> set (events w4) \<longleftrightarrow> Lcd ''Excess food!'' \<in> set (events w)"
    using measureSettledWeight_frame [of ?w3 e 5 2 "''Excess food!''"] m by simp_all
  show ?thesis
    using assms c by (simp add: pre_close_def m Let_def) (simp add: world_ops)
qed

lemma direct_checks_idle:
  assumes "preCloseExecuted f \<or> (dispensedWeight f < t \<and> 0 < t)"
  shows "direct_checks t f w = Some (f, w)"
  using assms by (auto simp: direct_checks_def Let_def)

lemma after_read_fields [simp]:
  "startTime (after_read i now x f) = startTime f"
  "retryCount (after_read i now x f) = retryCount f"
  "targetReached (after_read i now x f) = targetReached f"
  "preCloseExecuted (after_read i now x f) = preCloseExecuted f"
  "stabilityCounter (after_read i now x f) = stabilityCounter f"
  "0 \<le> dispensedWeight (after_read i now x f)"
  by (simp_all add: after_read_def Let_def)

lemma pre_stage_total:
  assumes "retryCount f \<le> 2" "0 \<le> dispensedWeight f"
  shows "\<exists>f' w'. pre_stage e i t f w = Some (f', w')
     \<and> startTime f' = startTime f \<and> retryCount f' \<le> 2
     \<and> stabilityCounter f' = stabilityCounter f
     \<and> clock w \<le> clock w' \<and> clock w' \<le> clock w + 5500
     \<and> (Lcd ''Excess food!'' \<in> set (events w') \<longleftrightarrow> Lcd ''Excess food!'' \<in> set (events w))
     \<and> (preCloseExecuted f' \<or> (dispensedWeight f' < t \<and> 0 < t))
     \<and> (targetReached f' \<longrightarrow>
           targetReached f \<or> t * (95 / 100) \<le> dispensedWeight f' \<or> retryCount f' = 2)"
proof (cases "\<not> preCloseExecuted f \<and> dispensedWeight f \<ge> t * (9 / 10)")
  case True
  obtain f' w' where p: "pre_close e i t f w = Some (f', w')"
    "startTime f' = startTime f" "retryCount f' \<le> 2"
    "stabilityCounter f' = stabilityCounter f"
    "clock w + 2000 \<le> clock w'" "clock w' \<le> clock w + 5500"
    "Lcd ''Excess food!'' \<in> set (events w') \<longleftrightarrow> Lcd ''Excess food!'' \<in> set (events w)"
    "preCloseExecuted f' \<or> (dispensedWeight f' < t * (95 / 100) \<and> 0 \<le> dispensedWeight f')"
    "targetReached f' \<longrightarrow>
       targetReached f \<or> t * (95 / 100) \<le> dispensedWeight f' \<or> retryCount f' = 2"
    using pre_close_total [OF assms(1), of e i t w] by blast
  have "preCloseExecuted f' \<or> (dispensedWeight f' < t \<and> 0 < t)"
    using p(8) by auto
  moreover have "pre_stage e i t f w = Some (f', w')"
    using True p(1) by (simp add: pre_stage_def)
  ultimately show ?thesis using p by auto
next
  case False
  then have "preCloseExecuted f \<or> (dispensedWeight f < t \<and> 0 < t)"
    using assms(2) by auto
  moreover have "pre_stage e i t f w = Some (f, w)"
    using False by (auto simp: pre_stage_def)
  ultimately show ?thesis using assms(1) by auto
qed

text \<open>
  Whatever the pre-close stage returns, the block after it finds either the pre-close flag
  set or a dispensed weight below the target: its direct target check and its emergency
  stop never run.
\<close>

lemma direct_checks_after_pre_stage:
  assumes "retryCount f \<le> 2" "0 \<le> dispensedWeight f"
    and "pre_stage e i t f w = Some (f', w')"
  shows "direct_checks t f' w' = Some (f', w')"
  using pre_stage_total [OF assms(1,2), of e i t w] assms(3)
  by (auto intro: direct_checks_idle)

subsection \<open>One weight reading\<close>

lemma weight_read_cases:
  "weight_read e i t now f w =
     (let w1 = snd (scale_is_ready e w);
          rdy = fst (scale_is_ready e w);
          recovered = (rdy \<or> fst (recover_loop e 5 w1));
          w2 = (if rdy then w1 else snd (recover_loop e 5 w1))
      in if \<not> recovered
         then Some (Returned (f\<lparr>lastWeightRead := now\<rparr>)
                (delay 3000 (servo_write 180 (delay 3000
                   (emit (Lcd ''Closing hatch'') (emit (Lcd ''Scale error!'') w2))))))
         else
           (case pre_stage e i t (after_read i now (fst (scale_get_units e 1 w2)) f)
                   (snd (scale_get_units e 1 w2)) of
              None \<Rightarrow> None
            | Some (f4, w4) \<Rightarrow>
                (case direct_checks t f4 w4 of
                   None \<Rightarrow> None
                 | Some (f5, w5) \<Rightarrow> Some (Continues f5 w5))))"
  by (simp add: weight_read_def lcdMessage_def after_read_def pre_stage_def Let_def split_beta)

lemma asked_frame:
  "clock w \<le> clock (snd (asked e w)) \<and> clock (snd (asked e w)) \<le> clock w + 500
   \<and> servo_log (snd (asked e w)) = servo_log w \<and> events (snd (asked e w)) = events w"
  using recover_loop_frame [of "snd (scale_is_ready e w)" e 5]
  by (simp add: asked_def) (simp add: world_ops)

lemma weight_read_returned:
  assumes "\<not> fst (asked e w)"
  shows "weight_read e i t now f w =
     Some (Returned (f\<lparr>lastWeightRead := now\<rparr>)
        (delay 3000 (servo_write 180 (delay 3000
           (emit (Lcd ''Closing hatch'') (emit (Lcd ''Scale error!'') (snd (asked e w))))))))"
  using assms by (auto simp: weight_read_cases asked_def Let_def split: if_splits)

lemma weight_read_continues:
  assumes "fst (asked e w)" "retryCount f \<le> 2"
    and "pre_stage e i t (after_read i now (fst (scale_get_units e 1 (snd (asked e w)))) f)
           (snd (scale_get_units e 1 (snd (asked e w)))) = Some (f4, w4)"
  shows "weight_read e i t now f w = Some (Continues f4 w4)"
proof -
  have d: "direct_checks t f4 w4 = Some (f4, w4)"
    by (rule direct_checks_after_pre_stage [OF _ _ assms(3)]) (use assms(2) in simp_all)
  have "weight_read e i t now f w =
     (case pre_stage e i t (after_read i now (fst (scale_get_units e 1 (snd (asked e w)))) f)
             (snd (scale_get_units e 1 (snd (asked e w)))) of
        None \<Rightarrow> None
      | Some (f4, w4) \<Rightarrow>
          (case direct_checks t f4 w4 of
             None \<Rightarrow> None
           | Some (f5, w5) \<Rightarrow> Some (Continues f5 w5)))"
    using assms(1) by (auto simp: weight_read_cases asked_def Let_def split: if_splits)
  also have "\<dots> = Some (Continues f4 w4)"
    unfolding assms(3) by (simp add: d)
  finally show ?thesis .
qed

text \<open>What one weight reading does, for any scale and any state with at most 2 retries.\<close>

lemma weight_read_sum:
  assumes "retryCount f \<le> 2"
  shows "\<exists>r. weight_read e i t now f w = Some r
     \<and> startTime (round_feed r) = startTime f \<and> retryCount (round_feed r) \<le> 2
     \<and> stabilityCounter (round_feed r) = stabilityCounter f
     \<and> clock w \<le> clock (round_world r)
     \<and> clock (round_world r) \<le> clock w + (if returned r then 6500 else 6000)
     \<and> (Lcd ''Excess food!'' \<in> set (events (round_world r))
          \<longleftrightarrow> Lcd ''Excess food!'' \<in> set (events w))
     \<and> (returned r \<longrightarrow> servo_log (round_world r) \<noteq> []
            \<and> last (servo_log (round_world r)) = 180)
     \<and> (targetReached (round_feed r) \<longrightarrow>
           targetReached f \<or> t * (95 / 100) \<le> dispensedWeight (round_feed r)
           \<or> retryCount (round_feed r) = 2)"
proof (cases "fst (asked e w)")
  case False
  note a = asked_frame [of w e]
  show ?thesis
    unfolding weight_read_returned [OF False]
    using assms a by (simp add: world_ops)
next
  case True
  note a = asked_frame [of w e]
  define f3 where "f3 = after_read i now (fst (scale_get_units e 1 (snd (asked e w)))) f"
  define w3 where "w3 = snd (scale_get_units e 1 (snd (asked e w)))"
  have w3: "clock w3 = clock (snd (asked e w))" "events w3 = events (snd (asked e w))"
    by (simp_all add: w3_def world_ops)
  have f3: "retryCount f3 \<le> 2" "0 \<le> dispensedWeight f3" "startTime f3 = startTime f"
    "stabilityCounter f3 = stabilityCounter f" "targetReached f3 = targetReached f"
    using assms by (simp_all add: f3_def)
  obtain f4 w4 where p: "pre_stage e i t f3 w3 = Some (f4, w4)"
    "startTime f4 = startTime f3" "retryCount f4 \<le> 2"
    "stabilityCounter f4 = stabilityCounter f3"
    "clock w3 \<le> clock w4" "clock w4 \<le> clock w3 + 5500"
    "Lcd ''Excess food!'' \<in> set (events w4) \<longleftrightarrow> Lcd ''Excess food!'' \<in> set (events w3)"
    "targetReached f4 \<longrightarrow>
       targetReached f3 \<or> t * (95 / 100) \<le> dispensedWeight f4 \<or> retryCount f4 = 2"
    using pre_stage_total [OF f3(1,2), of e i t w3] by blast
  have "weight_read e i t now f w = Some (Continues f4 w4)"
    using True assms p(1) unfolding f3_def w3_def by (rule weight_read_continues)
  then show ?thesis using p f3 w3 a by auto
qed

subsection \<open>One round of the loop, and the loop\<close>

lemma loop_body_sum:
  assumes "retryCount f \<le> 2"
  shows "\<exists>r. loop_body e i t f w = Some r
     \<and> startTime (round_feed r) = startTime f \<and> retryCount (round_feed r) \<le> 2
     \<and> stabilityCounter (round_feed r) = stabilityCounter f
     \<and> clock w \<le> clock (round_world r)
     \<and> clock (round_world r) \<le> clock w + 6500
     \<and> (\<not> returned r \<longrightarrow> clock w + 10 \<le> clock (round_world r))
     \<and> (Lcd ''Excess food!'' \<in> set (events (round_world r))
          \<longleftrightarrow> Lcd ''Excess food!'' \<in> set (events w))
     \<and> (returned r \<longrightarrow> servo_log (round_world r) \<noteq> []
            \<and> last (servo_log (round_world r)) = 180)
     \<and> (targetReached (round_feed r) \<longrightarrow>
           targetReached f \<or> t * (95 / 100) \<le> dispensedWeight (round_feed r)
           \<or> retryCount (round_feed r) = 2)"
proof (cases "millis w - lastWeightRead f \<ge> 100")
  case True
  obtain r where r: "weight_read e i t (millis w) f w = Some r"
    "startTime (round_feed r) = startTime f" "retryCount (round_feed r) \<le> 2"
    "stabilityCounter (round_feed r) = stabilityCounter f"
    "clock w \<le> clock (round_world r)"
    "clock (round_world r) \<le> clock w + (if returned r then 6500 else 6000)"
    "Lcd ''Excess food!'' \<in> set (events (round_world r))
          \<longleftrightarrow> Lcd ''Excess food!'' \<in> set (events w)"
    "returned r \<longrightarrow> servo_log (round_world r) \<noteq> [] \<and> last (servo_log (round_world r)) = 180"
    "targetReached (round_feed r) \<longrightarrow>
           targetReached f \<or> t * (95 / 100) \<le> dispensedWeight (round_feed r)
           \<or> retryCount (round_feed r) = 2"
    using weight_read_sum [OF assms, of e i t "millis w" w] by blast
  show ?thesis
  proof (cases r)
    case (Returned f1 w1)
    then have "loop_body e i t f w = Some (Returned f1 w1)"
      using True r(1) by (simp add: loop_body_def)
    then show ?thesis using r Returned by simp
  next
    case (Continues f1 w1)
    obtain f2 w2 where b: "loop_body e i t f w = Some (Continues f2 w2)"
      "startTime f2 = startTime f1" "retryCount f2 = retryCount f1"
      "stabilityCounter f2 = stabilityCounter f1" "targetReached f2 = targetReached f1"
      "dispensedWeight f2 = dispensedWeight f1" "clock w2 = clock w1 + 10"
      "Lcd ''Excess food!'' \<in> set (events w2) \<longleftrightarrow> Lcd ''Excess food!'' \<in> set (events w1)"
      using True r(1) Continues
      by (simp add: loop_body_def Let_def split_beta world_ops updateFeedingDisplay_def)
    show ?thesis using b r Continues by simp
  qed
next
  case False
  obtain f2 w2 where b: "loop_body e i t f w = Some (Continues f2 w2)"
    "startTime f2 = startTime f" "retryCount f2 = retryCount f"
    "stabilityCounter f2 = stabilityCounter f" "targetReached f2 = targetReached f"
    "dispensedWeight f2 = dispensedWeight f" "clock w2 = clock w + 10"
    "Lcd ''Excess food!'' \<in> set (events w2) \<longleftrightarrow> Lcd ''Excess food!'' \<in> set (events w)"
    using False
    by (simp add: loop_body_def Let_def split_beta world_ops updateFeedingDisplay_def)
  show ?thesis using b assms by simp
qed

text \<open>
  The loop, started at most 36.5 s after \<open>startTime\<close> with at most 2 retries, ends:
  every round that does not return takes at least 10 ms and at most 6.5 s, and no round
  starts once 30 s have passed.
\<close>

lemma feed_loop_sum:
  assumes "startTime f = word_of_nat t0" "t0 \<le> clock w" "clock w < t0 + 36500"
    and "retryCount f \<le> 2"
    and "targetReached f \<longrightarrow> t * (95 / 100) \<le> dispensedWeight f \<or> retryCount f = 2"
  shows "\<exists>r. feed_loop e i t f w = Some r
     \<and> retryCount (round_feed r) \<le> 2
     \<and> stabilityCounter (round_feed r) = stabilityCounter f
     \<and> startTime (round_feed r) = startTime f
     \<and> clock w \<le> clock (round_world r) \<and> clock (round_world r) < t0 + 36500
     \<and> (Lcd ''Excess food!'' \<in> set (events (round_world r))
          \<longleftrightarrow> Lcd ''Excess food!'' \<in> set (events w))
     \<and> (returned r \<longrightarrow> servo_log (round_world r) \<noteq> []
            \<and> last (servo_log (round_world r)) = 180)
     \<and> (\<not> returned r \<longrightarrow>
           (targetReached (round_feed r)
            \<or> 30000 \<le> millis (round_world r) - startTime (round_feed r))
           \<and> (targetReached (round_feed r) \<longrightarrow>
                 t * (95 / 100) \<le> dispensedWeight (round_feed r)
                 \<or> retryCount (round_feed r) = 2))"
  using assms
proof (induction "t0 + 36500 - clock w" arbitrary: f w rule: less_induct)
  case less
  have el: "unat (millis w - startTime f) = clock w - t0"
    unfolding millis_def less.prems(1)
    by (rule millis_elapsed) (use less.prems(2,3) in simp_all)
  show ?case
  proof (cases "\<not> targetReached f \<and> millis w - startTime f < 30000")
    case False
    then have "feed_loop e i t f w = Some (Continues f w)"
      by (subst feed_loop.simps) auto
    then show ?thesis using False less.prems by (auto simp: not_less)
  next
    case True
    then have lt: "clock w - t0 < 30000"
      using el by (simp add: word_less_nat_alt)
    obtain r where r: "loop_body e i t f w = Some r"
      "startTime (round_feed r) = startTime f" "retryCount (round_feed r) \<le> 2"
      "stabilityCounter (round_feed r) = stabilityCounter f"
      "clock w \<le> clock (round_world r)" "clock (round_world r) \<le> clock w + 6500"
      "\<not> returned r \<longrightarrow> clock w + 10 \<le> clock (round_world r)"
      "Lcd ''Excess food!'' \<in> set (events (round_world r))
          \<longleftrightarrow> Lcd ''Excess food!'' \<in> set (events w)"
      "returned r \<longrightarrow> servo_log (round_world r) \<noteq> [] \<and> last (servo_log (round_world r)) = 180"
      "targetReached (round_feed r) \<longrightarrow>
           targetReached f \<or> t * (95 / 100) \<le> dispensedWeight (round_feed r)
           \<or> retryCount (round_feed r) = 2"
      using loop_body_sum [OF less.prems(4), of e i t w] by blast
    show ?thesis
    proof (cases r)
      case (Returned f1 w1)
      then have "feed_loop e i t f w = Some (Returned f1 w1)"
        using True r(1) by (subst feed_loop.simps) simp
      then show ?thesis using r Returned lt less.prems(2) by simp
    next
      case (Continues f1 w1)
      have "\<exists>r'. feed_loop e i t f1 w1 = Some r'
         \<and> retryCount (round_feed r') \<le> 2
         \<and> stabilityCounter (round_feed r') = stabilityCounter f1
         \<and> startTime (round_feed r') = startTime f1
         \<and> clock w1 \<le> clock (round_world r') \<and> clock (round_world r') < t0 + 36500
         \<and> (Lcd ''Excess food!'' \<in> set (events (round_world r'))
              \<longleftrightarrow> Lcd ''Excess food!'' \<in> set (events w1))
         \<and> (returned r' \<longrightarrow> servo_log (round_world r') \<noteq> []
                \<and> last (servo_log (round_world r')) = 180)
         \<and> (\<not> returned r' \<longrightarrow>
               (targetReached (round_feed r')
                \<or> 30000 \<le> millis (round_world r') - startTime (round_feed r'))
               \<and> (targetReached (round_feed r') \<longrightarrow>
                     t * (95 / 100) \<le> dispensedWeight (round_feed r')
                     \<or> retryCount (round_feed r') = 2))"
      proof (rule less.hyps)
        show "t0 + 36500 - clock w1 < t0 + 36500 - clock w"
          using r(6,7) Continues lt less.prems(2) by simp
        show "startTime f1 = word_of_nat t0" using r(2) Continues less.prems(1) by simp
        show "t0 \<le> clock w1" using r(5) Continues less.prems(2) by simp
        show "clock w1 < t0 + 36500" using r(6) Continues lt less.prems(2) by simp
        show "retryCount f1 \<le> 2" using r(3) Continues by simp
        show "targetReached f1 \<longrightarrow> t * (95 / 100) \<le> dispensedWeight f1 \<or> retryCount f1 = 2"
          using r(10) True Continues by simp
      qed
      moreover have "feed_loop e i t f w = feed_loop e i t f1 w1"
        using True r(1) Continues by (subst feed_loop.simps) simp
      ultimately show ?thesis using r(2,4,5,8) Continues by auto
    qed
  qed
qed

text \<open>The whole function, for any scale, weights and starting time.\<close>

lemma dispense_run_sum:
  "\<exists>r. dispense_run e i t w = Some r
     \<and> retryCount (round_feed r) \<le> 2
     \<and> stabilityCounter (round_feed r) = 0
     \<and> startTime (round_feed r) = millis w
     \<and> clock w \<le> clock (round_world r) \<and> clock (round_world r) < clock w + 36500
     \<and> (Lcd ''Excess food!'' \<in> set (events (round_world r))
          \<longleftrightarrow> Lcd ''Excess food!'' \<in> set (events w))
     \<and> servo_log (round_world r) \<noteq> [] \<and> last (servo_log (round_world r)) = 180
     \<and> (\<not> returned r \<longrightarrow>
           (targetReached (round_feed r)
            \<or> 30000 \<le> millis (round_world r) - startTime (round_feed r))
           \<and> (targetReached (round_feed r) \<longrightarrow>
                 t * (95 / 100) \<le> dispensedWeight (round_feed r)
                 \<or> retryCount (round_feed r) = 2))"
proof -
  define f where "f = feed_init i w"
  define w1 where "w1 = delay 500 (servo_write 60 w)"
  have f: "startTime f = word_of_nat (clock w)" "retryCount f \<le> 2" "\<not> targetReached f"
    "stabilityCounter f = 0"
    by (simp_all add: f_def feed_init_def millis_def)
  have w1: "clock w1 = clock w + 500" "events w1 = events w"
    by (simp_all add: w1_def world_ops)
  obtain r where r: "feed_loop e i t f w1 = Some r"
    "retryCount (round_feed r) \<le> 2"
    "stabilityCounter (round_feed r) = stabilityCounter f"
    "startTime (round_feed r) = startTime f"
    "clock w1 \<le> clock (round_world r)" "clock (round_world r) < clock w + 36500"
    "Lcd ''Excess food!'' \<in> set (events (round_world r))
          \<longleftrightarrow> Lcd ''Excess food!'' \<in> set (events w1)"
    "returned r \<longrightarrow> servo_log (round_world r) \<noteq> [] \<and> last (servo_log (round_world r)) = 180"
    "\<not> returned r \<longrightarrow>
           (targetReached (round_feed r)
            \<or> 30000 \<le> millis (round_world r) - startTime (round_feed r))
           \<and> (targetReached (round_feed r) \<longrightarrow>
                 t * (95 / 100) \<le> dispensedWeight (round_feed r)
                 \<or> retryCount (round_feed r) = 2)"
    using feed_loop_sum [where f = f and ?t0.0 = "clock w" and w = w1 and e = e and i = i and t = t]
      f w1 by auto
  have d: "dispense_run e i t w =
      (case r of Returned f1 w2 \<Rightarrow> Some (Returned f1 w2)
       | Continues f1 w2 \<Rightarrow> Some (Continues f1 (servo_write 180 w2)))"
    using r(1) by (cases r) (simp_all add: dispense_run_def f_def w1_def Let_def)
  show ?thesis
  proof (cases r)
    case (Returned f1 w2)
    then show ?thesis using d r f w1 by (simp add: millis_def)
  next
    case (Continues f1 w2)
    then show ?thesis using d r f w1 by (simp add: millis_def servo_write_def)
  qed
qed

subsection \<open>Unfolding the loops over the scale on numerals\<close>

lemma settle_loop_numeral:
  "settle_loop e samples i (numeral n) (settledWeight, valid) w =
     (let (rdy, w1) = scale_is_ready e w in
      if rdy then
        (let (x, w2) = scale_get_units e samples w1;
             w3 = delay 100 (emit (LcdNum (i + 1)) w2)
         in settle_loop e samples (i + 1) (pred_numeral n) (settledWeight + x, valid + 1) w3)
      else settle_loop e samples (i + 1) (pred_numeral n) (settledWeight, valid) w1)"
  by (simp add: numeral_eq_Suc)

lemma settle_loop_1:
  "settle_loop e samples i 1 (settledWeight, valid) w =
     (let (rdy, w1) = scale_is_ready e w in
      if rdy then
        (let (x, w2) = scale_get_units e samples w1;
             w3 = delay 100 (emit (LcdNum (i + 1)) w2)
         in ((settledWeight + x, valid + 1), w3))
      else ((settledWeight, valid), w1))"
  by (simp add: split_beta)

lemma recover_loop_numeral:
  "recover_loop e (numeral n) w =
     (let (rdy, w1) = scale_is_ready e (delay 100 w) in
      if rdy then (True, w1) else recover_loop e (pred_numeral n) w1)"
  by (simp add: numeral_eq_Suc)

lemma recover_loop_1:
  "recover_loop e 1 w =
     (let (rdy, w1) = scale_is_ready e (delay 100 w) in
      if rdy then (True, w1) else (False, w1))"
  by (simp add: split_beta)

lemma replicate_3: "replicate 3 x = [x, x, x]"
  by (simp add: numeral_3_eq_3)

lemmas scale_loops_unfold = replicate_3 settle_loop_numeral settle_loop_1 recover_loop_numeral recover_loop_1

lemmas dispense_eval = dispense_run_def feed_init_def loop_body_def weight_read_def
  pre_close_def direct_checks_def measureSettledWeight_def updateFeedingDisplay_def
  constrain_def lcdMessage_def test_env_def world0_def world_ops millis_def Let_def split_beta
  scale_loops_unfold


lemmas scales = jump_scale_def exact_scale_def short_scale_def dead_scale_def

subsection \<open>Concrete runs\<close>

text \<open>
  Target 65 g, empty bowl, scale always ready. Three scales: one whose readings jump to
  300 g at once; one that reads 195 g at once, so that the moving average of the first
  poll is exactly the target; and one whose fast readings are high (180 g) while its
  settled readings stay at 60 g, below 95 % of the target. And a scale that never answers.
\<close>

lemma run_jump_to_300:
  "dispense_run jump_scale 0 65 (world0 1000)
   = Some (Continues
      \<lparr>weightReadings = [300, 300, 300], readingIndex = 1,
         currentWeight = 300, startTime = 1000, lastDisplayUpdateF = 1500,
         lastWeightRead = 1500, targetReached = True, preCloseExecuted = True,
         dispensedWeight = 300, retryCount = 0, stabilityCounter = 0\<rparr>
      \<lparr>clock = 6010, ready_calls = 6, units_calls = 6, ping_calls = 0,
         wifi_calls = 0, web_calls = 0, button_reads = 0, servo_log = [60, 180, 180],
         relay_pin = False,
         events =
           [Lcd ''Almost there...'', Lcd ''Food settling'', LcdNum 1,
            LcdNum 2, LcdNum 3, LcdNum 4, LcdNum 5, Lcd ''Target reached!'',
            Lcd ''Dispensed: %.1fg'', Lcd ''Feeding: %d%%'', LcdBar 16]\<rparr>)"
  by (simp add: scales dispense_eval feed_loop.simps)

lemma run_exactly_target:
  "dispense_run exact_scale 0 65 (world0 1000)
   = Some (Continues
      \<lparr>weightReadings = [195, 195, 195], readingIndex = 1,
         currentWeight = 195, startTime = 1000, lastDisplayUpdateF = 1500,
         lastWeightRead = 1500, targetReached = True, preCloseExecuted = True,
         dispensedWeight = 195, retryCount = 0, stabilityCounter = 0\<rparr>
      \<lparr>clock = 6010, ready_calls = 6, units_calls = 6, ping_calls = 0,
         wifi_calls = 0, web_calls = 0, button_reads = 0, servo_log = [60, 180, 180],
         relay_pin = False,
         events =
           [Lcd ''Almost there...'', Lcd ''Food settling'', LcdNum 1,
            LcdNum 2, LcdNum 3, LcdNum 4, LcdNum 5, Lcd ''Target reached!'',
            Lcd ''Dispensed: %.1fg'', Lcd ''Feeding: %d%%'', LcdBar 16]\<rparr>)"
  by (simp add: scales dispense_eval feed_loop.simps)

lemma run_settles_short:
  "dispense_run short_scale 0 65
     (world0 1000)
   = Some (Continues
      \<lparr>weightReadings = [60, 60, 60], readingIndex = 0, currentWeight = 60,
         startTime = 1000, lastDisplayUpdateF = 7120, lastWeightRead = 7120,
         targetReached = True, preCloseExecuted = True, dispensedWeight = 60,
         retryCount = 2, stabilityCounter = 0\<rparr>
      \<lparr>clock = 12630, ready_calls = 18, units_calls = 18, ping_calls = 0,
         wifi_calls = 0, web_calls = 0, button_reads = 0,
         servo_log = [60, 180, 60, 180, 60, 180, 180], relay_pin = False,
         events =
           [Lcd ''Almost there...'', Lcd ''Food settling'', LcdNum 1,
            LcdNum 2, LcdNum 3, LcdNum 4, LcdNum 5, Lcd ''Need more food'',
            Lcd ''Retry #%d'', Lcd ''Feeding: %d%%'', LcdBar 14,
            Lcd ''Almost there...'', Lcd ''Food settling'', LcdNum 1,
            LcdNum 2, LcdNum 3, LcdNum 4, LcdNum 5, Lcd ''Need more food'',
            Lcd ''Retry #%d'', Lcd ''Feeding: %d%%'', LcdBar 14,
            Lcd ''Almost there...'', Lcd ''Food settling'', LcdNum 1,
            LcdNum 2, LcdNum 3, LcdNum 4, LcdNum 5, Lcd ''Warning: Only'',
            Lcd ''%.1fg dispensed'', Lcd ''Feeding: %d%%'', LcdBar 14]\<rparr>)"
  by (simp add: scales dispense_eval feed_loop.simps)

lemma run_scale_dead:
  "dispense_run dead_scale 0 65 (world0 1000)
   = Some (Returned
      \<lparr>weightReadings = [0, 0, 0], readingIndex = 0, currentWeight = 0,
         startTime = 1000, lastDisplayUpdateF = 0, lastWeightRead = 1500,
         targetReached = False, preCloseExecuted = False, dispensedWeight = 0,
         retryCount = 0, stabilityCounter = 0\<rparr>
      \<lparr>clock = 8000, ready_calls = 6, units_calls = 0, ping_calls = 0,
         wifi_calls = 0, web_calls = 0, button_reads = 0, servo_log = [60, 180],
         relay_pin = False,
         events = [Lcd ''Scale error!'', Lcd ''Closing hatch'']\<rparr>)"
  by (simp add: scales dispense_eval feed_loop.simps)

subsection \<open>A run that lasts longer than FEED_TIMEOUT\<close>












subsection \<open>The servo in feeding\<close>

text \<open>
  Apart from the call of dispenseFoodWithFeedback, nothing that feeding calls writes to the
  servo: each helper leaves the log of servo writes as it found it.
\<close>

lemma release_loop_frame:
  assumes "release_loop e w = Some w'"
  shows "servo_log w' = servo_log w"
proof (rule release_loop.raw_induct [where P = "\<lambda>e w w'. servo_log w' = servo_log w", OF _ assms],
    goal_cases)
  case (1 f e w w')
  show ?case
  proof (cases "fst (button_read e w)")
    case True
    then have "f e (delay 10 (snd (button_read e w))) = Some w'"
      using 1(2) by (simp add: split_beta)
    then have "servo_log w' = servo_log (delay 10 (snd (button_read e w)))"
      by (rule 1(1))
    then show ?thesis by (simp add: world_ops button_read_def)
  next
    case False
    then show ?thesis using 1(2) by (auto simp: split_beta world_ops button_read_def)
  qed
qed

lemma button_round_frame:
  assumes "button_round e w = Some (b, w')"
  shows "servo_log w' = servo_log w"
proof (cases "fst (button_read e w)")
  case False
  then show ?thesis
    using assms by (auto simp: button_round_def split_beta world_ops button_read_def)
next
  case True
  define w2 where "w2 = snd (button_read e (delay 50 (snd (button_read e w))))"
  have f: "servo_log w2 = servo_log w"
    by (simp add: w2_def button_read_def world_ops)
  show ?thesis
  proof (cases "fst (button_read e (delay 50 (snd (button_read e w))))")
    case False
    then show ?thesis
      using True assms f by (auto simp: button_round_def split_beta Let_def w2_def)
  next
    case low2: True
    then have "release_loop e w2 = Some w'"
      using True assms by (auto simp: button_round_def split_beta Let_def w2_def)
    then show ?thesis using release_loop_frame f by simp
  qed
qed

lemma notify_loop_frame:
  assumes "notify_loop e s w = Some r"
  shows "servo_log (snd r) = servo_log w"
proof (rule notify_loop.raw_induct
         [where P = "\<lambda>e s w r. servo_log (snd r) = servo_log w", OF _ assms], goal_cases)
  case (1 f e s w r)
  have u: "(if millis w - s < NOTIFY_TIMEOUT then
        (case button_round e w of
           None \<Rightarrow> None
         | Some (buttonPressed, w3) \<Rightarrow>
             if buttonPressed then Some (True, w3)
             else
               (let el = millis w3 - s;
                    w4 = (if el div 1000 \<noteq> (el - 100) div 1000
                          then emit (LcdNum (sint ((NOTIFY_TIMEOUT - el) div 1000)))
                                 (emit (Lcd ''  '') w3)
                          else w3)
                in f e s (delay 100 w4)))
      else Some (False, w)) = Some r"
    using 1(2) .
  show ?case
  proof (cases "millis w - s < NOTIFY_TIMEOUT")
    case False
    then show ?thesis using u by auto
  next
    case True
    then obtain pressed w3 where b: "button_round e w = Some (pressed, w3)"
      using u by (auto split: option.splits)
    have w3: "servo_log w3 = servo_log w" using b by (rule button_round_frame)
    show ?thesis
    proof (cases pressed)
      case True
      then show ?thesis using u \<open>millis w - s < NOTIFY_TIMEOUT\<close> b w3 by auto
    next
      case False
      define w4 where "w4 = (if (millis w3 - s) div 1000 \<noteq> (millis w3 - s - 100) div 1000
                        then emit (LcdNum (sint ((NOTIFY_TIMEOUT - (millis w3 - s)) div 1000)))
                               (emit (Lcd ''  '') w3)
                        else w3)"
      have w4: "servo_log w4 = servo_log w" using w3 by (simp add: w4_def world_ops)
      have "f e s (delay 100 w4) = Some r"
        using u \<open>millis w - s < NOTIFY_TIMEOUT\<close> b False by (simp add: Let_def w4_def)
      then have "servo_log (snd r) = servo_log (delay 100 w4)" by (rule 1(1))
      then show ?thesis using w4 by (simp add: world_ops)
    qed
  qed
qed


lemma checkScaleReady_loop_frame:
  "servo_log (snd (checkScaleReady_loop e s t w)) = servo_log w"
proof (induction e s t w rule: checkScaleReady_loop.induct)
  case (1 e startCheck timeout w)
  show ?case
  proof (cases "millis w - startCheck < ucast timeout \<and> \<not> fst (scale_is_ready e w)")
    case True
    then have "servo_log (snd (checkScaleReady_loop e startCheck timeout
                 (delay 50 (snd (scale_is_ready e w)))))
               = servo_log (delay 50 (snd (scale_is_ready e w)))"
      by (intro 1) (auto simp: prod_eq_iff)
    then show ?thesis
      using True by (subst checkScaleReady_loop.simps) (simp add: split_beta world_ops)
  next
    case False
    then show ?thesis
      by (subst checkScaleReady_loop.simps) (auto simp: split_beta world_ops)
  qed
qed

lemma read_weights_frame:
  "servo_log (snd (read_weights e s n w)) = servo_log w"
proof (induction n arbitrary: w)
  case 0
  show ?case by simp
next
  case (Suc n)
  show ?case
    unfolding read_weights.simps Let_def split_beta
    by (simp add: Suc world_ops)
qed

lemma getStableWeight_frame:
  "servo_log (snd (getStableWeight e n s th w)) = servo_log w"
  by (simp add: getStableWeight_def stable_stats_def split_beta Let_def read_weights_frame)

lemma checkExistingFood_frame:
  assumes "checkExistingFood e cw th w = Some (b, w')"
  shows "servo_log w' = servo_log w"
proof (cases "cw \<ge> th")
  case False
  then show ?thesis using assms by (simp add: checkExistingFood_def)
next
  case True
  define w2 where "w2 = emit (Lcd ''Btn:feed / Wait:20s'') (emit (Lcd ''Food already >10g'')
      (delay 3000 (emit (Lcd ''Weight: %.1fg'') (emit (Lcd ''Food detected!'') w))))"
  define after where "after = (\<lambda>(buttonPressed, w3).
          if \<not> buttonPressed then
            do {
              w4 \<leftarrow> nonBlockingWait QUICK_DISPLAY_TIME 0
                      (emit (Lcd ''Bowl already has:'') (emit (Lcd ''Feeding canceled'') w3));
              w5 \<leftarrow> nonBlockingWait INFO_DISPLAY_TIME 0
                      (emit (Lcd ''%.1fg in bowl'') (emit (Lcd ''Food weight:'') w4));
              Some (False, w5)
            }
          else
            do {
              w4 \<leftarrow> nonBlockingWait QUICK_DISPLAY_TIME 0
                      (emit (Lcd ''Adding more food'') (emit (Lcd ''Continuing...'') w3));
              Some (True, w4)
            })"
  have w2: "servo_log w2 = servo_log w" by (simp add: w2_def world_ops)
  have eq: "notify_loop e (millis w2) w2 \<bind> after = Some (b, w')"
    using True assms unfolding checkExistingFood_def w2_def after_def by (simp add: Let_def)
  then obtain pressed w3 where n: "notify_loop e (millis w2) w2 = Some (pressed, w3)"
    by (auto split: Option.bind_splits)
  have w3: "servo_log w3 = servo_log w"
    using notify_loop_frame [OF n] w2 by simp
  have "after (pressed, w3) = Some (b, w')" using eq n by simp
  then show ?thesis
    using w3 by (cases pressed) (auto simp: after_def world_ops)
qed

lemma showFeedingResults_frame:
  "\<exists>w'. showFeedingResults i fw t w = Some w' \<and> servo_log w' = servo_log w"
  by (simp add: showFeedingResults_def lcdMessage_def Let_def world_ops)


lemma report_feeding_frame:
  "\<exists>w'. report_feeding e s i w = Some w' \<and> servo_log w' = servo_log w"
proof -
  define w1 where "w1 = delay 2000 (emit (Lcd ''weight...'') (emit (Lcd ''Measuring final'') w))"
  define w2 where "w2 = snd (measureSettledWeight e 5 5 w1)"
  obtain w3 where w3: "showFeedingResults i (fst (measureSettledWeight e 5 5 w1)) FEED_WEIGHT w2
      = Some w3" "servo_log w3 = servo_log w2"
    using showFeedingResults_frame by blast
  have f: "servo_log w1 = servo_log w" "servo_log w2 = servo_log w1"
    "servo_log (snd (getDistance e w3)) = servo_log w3"
    using measureSettledWeight_frame [of w1 e 5 5] getDistance_frame [of e w3]
    by (simp_all add: w1_def w2_def world_ops)
  show ?thesis
    using w3 f unfolding report_feeding_def
    by (simp add: w1_def [symmetric] split_beta w2_def [symmetric] Let_def)
       (simp add: world_ops Let_def)
qed

lemma dispenseFoodWithFeedback_frame:
  "\<exists>d w'. dispenseFoodWithFeedback e i t w = Some (d, w')
      \<and> servo_log w' \<noteq> [] \<and> last (servo_log w') = 180"
proof -
  obtain r where r: "dispense_run e i t w = Some r"
    "servo_log (round_world r) \<noteq> []" "last (servo_log (round_world r)) = 180"
    using dispense_run_sum [of e i t w] by blast
  then show ?thesis by (cases r) (simp_all add: dispenseFoodWithFeedback_def)
qed

lemma feeding_frame:
  assumes "feeding e s w = Some w'"
  shows "servo_log w' = servo_log w \<or> (servo_log w' \<noteq> [] \<and> last (servo_log w') = 180)"
proof -
  define w1 where "w1 = (if fst (online e w)
                then emit (LogEvent ''feeding_start''
                             (if s then ''Scheduled feeding initiated''
                              else ''Manual feeding initiated'')) (snd (online e w))
                else snd (online e w))"
  define w2 where "w2 = delay 2000 (emit (Lcd ''Checking scale'') (emit (Lcd ''Feeding time'') w1))"
  define w3 where "w3 = snd (checkScaleReady e SCALE_TIMEOUT w2)"
  define w4 where "w4 = delay 2000 (emit (Lcd ''Checking bowl...'') w3)"
  define w5 where "w5 = snd (getStableWeight e 5 2 WEIGHT_STABILITY_THRESHOLD w4)"
  define cfw where "cfw = (if fst (getStableWeight e 5 2 WEIGHT_STABILITY_THRESHOLD w4) < 0 then 0
                           else fst (getStableWeight e 5 2 WEIGHT_STABILITY_THRESHOLD w4))"
  have f: "servo_log w1 = servo_log w" "servo_log w2 = servo_log w1" "servo_log w3 = servo_log w2"
    "servo_log w4 = servo_log w3" "servo_log w5 = servo_log w4"
    by (simp_all add: w1_def w2_def w3_def w4_def w5_def world_ops checkScaleReady_def
        checkScaleReady_loop_frame getStableWeight_frame Let_def)
  have eq: "feeding e s w =
     (if \<not> fst (checkScaleReady e SCALE_TIMEOUT w2)
      then Some (delay 3000 (emit (Lcd ''Scale not ready!'') (emit (Lcd ''Error'') w3)))
      else checkExistingFood e cfw FEED_THRESHOLD w5 \<bind>
           (\<lambda>(continue, w6).
               if \<not> continue then Some w6
               else dispenseFoodWithFeedback e cfw FEED_WEIGHT
                      (delay 2000 (emit (Lcd ''Opening hatch...'') (emit (Lcd ''Starting feed'') w6)))
                    \<bind> (\<lambda>(dispensedAmount, w8). report_feeding e s cfw w8)))"
    unfolding feeding_def w1_def w2_def w3_def w4_def w5_def cfw_def
    by (simp add: Let_def split_beta split del: if_split cong: if_cong)
  show ?thesis
  proof (cases "fst (checkScaleReady e SCALE_TIMEOUT w2)")
    case False
    then show ?thesis using assms f unfolding eq by (auto simp: world_ops)
  next
    case True
    then obtain continue w6 where c: "checkExistingFood e cfw FEED_THRESHOLD w5 = Some (continue, w6)"
      using assms unfolding eq by (auto split: Option.bind_splits)
    have w6: "servo_log w6 = servo_log w"
      using checkExistingFood_frame [OF c] f by simp
    show ?thesis
    proof (cases continue)
      case False
      then show ?thesis using assms True c w6 unfolding eq by simp
    next
      case go: True
      define w7 where "w7 = delay 2000 (emit (Lcd ''Opening hatch...'') (emit (Lcd ''Starting feed'') w6))"
      obtain d w8 where d: "dispenseFoodWithFeedback e cfw FEED_WEIGHT w7 = Some (d, w8)"
        "servo_log w8 \<noteq> []" "last (servo_log w8) = 180"
        using dispenseFoodWithFeedback_frame by blast
      obtain w9 where r: "report_feeding e s cfw w8 = Some w9" "servo_log w9 = servo_log w8"
        using report_feeding_frame by blast
      have "feeding e s w = Some w9"
        unfolding eq using True c go d(1) r(1) by (simp add: w7_def)
      then show ?thesis using assms d r by simp
    qed
  qed
qed

subsection \<open>The claims about dispenseFoodWithFeedback\<close>

text \<open>
  C1. Every execution of dispenseFoodWithFeedback returns, and whichever way it returns
  (the target flag set by a completed, a partial or an excess dispense, the timeout of the
  loop, or the \<^verbatim>\<open>return\<close> after a scale failure) the last angle written to the hatch
  servo is \<open>SERVO_CLOSE_ANGLE\<close>.
\<close>

theorem hatch_closed_on_every_return:
  "\<exists>r. dispense_run e initialWeight targetAmount w = Some r
     \<and> dispenseFoodWithFeedback e initialWeight targetAmount w
         = Some (dispensedWeight (round_feed r), round_world r)
     \<and> servo_log (round_world r) \<noteq> []
     \<and> last (servo_log (round_world r)) = SERVO_CLOSE_ANGLE"
proof -
  obtain r where r: "dispense_run e initialWeight targetAmount w = Some r"
    "servo_log (round_world r) \<noteq> []" "last (servo_log (round_world r)) = 180"
    using dispense_run_sum [of e initialWeight targetAmount w] by blast
  have "dispenseFoodWithFeedback e initialWeight targetAmount w
         = Some (dispensedWeight (round_feed r), round_world r)"
    using r(1) by (cases r) (simp_all add: dispenseFoodWithFeedback_def)
  then show ?thesis using r by auto
qed

theorem hatch_closed_on_every_return_witness:
  "(\<exists>r. dispense_run dead_scale 0 65 (world0 1000) = Some r
      \<and> returned r \<and> servo_log (round_world r) = [60, 180]
      \<and> last (servo_log (round_world r)) = SERVO_CLOSE_ANGLE)
   \<and> (\<exists>r. dispense_run short_scale 0 65
             (world0 1000) = Some r
      \<and> \<not> returned r \<and> servo_log (round_world r) = [60, 180, 60, 180, 60, 180, 180]
      \<and> last (servo_log (round_world r)) = SERVO_CLOSE_ANGLE)"
  using hatch_closed_on_every_return
          [of dead_scale 0 65 "world0 1000"]
        hatch_closed_on_every_return
          [of short_scale 0 65
              "world0 1000"]
  by (simp add: run_scale_dead run_settles_short)




text \<open>
  For every scale, weights and starting time: at the return the stability counter is
  still 0 and no ``Excess food!'' has been shown that was not on the display before. The
  direct target check and the emergency stop sit in a block that runs only with the
  pre-close flag cleared, after the pre-close rule, which has fired whenever the dispensed
  weight is at or above 90 % of the target; so they never run.
\<close>

lemma direct_check_and_emergency_stop_never_run:
  "\<exists>r. dispense_run e initialWeight targetAmount w = Some r
     \<and> stabilityCounter (round_feed r) = 0
     \<and> (Lcd ''Excess food!'' \<in> set (events (round_world r))
          \<longleftrightarrow> Lcd ''Excess food!'' \<in> set (events w))"
  using dispense_run_sum [of e initialWeight targetAmount w] by blast

text \<open>
  C2: what the code does when the readings jump past the excess threshold between two
  polls. Target 65 g (excess threshold 81.25 g), readings 300 g from the first poll on:
  the moving average gives 100 g dispensed, the pre-close rule closes the hatch, the
  settled measurement is 300 g, and the run ends by the ``Target reached!'' branch; the
  ``Excess food!'' branch is not taken. The hatch is closed at the return.
\<close>

theorem excess_jump_ends_as_target_reached:
  "\<exists>f w'. dispense_run jump_scale 0 65 (world0 1000)
            = Some (Continues f w')
     \<and> dispensedWeight f = 300 \<and> 65 * (125 / 100) \<le> dispensedWeight f
     \<and> targetReached f
     \<and> Lcd ''Target reached!'' \<in> set (events w')
     \<and> Lcd ''Excess food!'' \<notin> set (events w')
     \<and> servo_log w' = [SERVO_OPEN_ANGLE, SERVO_CLOSE_ANGLE, SERVO_CLOSE_ANGLE]"
  by (simp add: run_jump_to_300)

text \<open>
  C5: what the code does when the dispensed weight reaches the target with the pre-close
  flag not set. Target 65 g, readings 195 g from the first poll on: the first poll sees
  exactly 65 g dispensed; the pre-close rule (not the direct check) closes the hatch, and
  the run is declared complete in that same round, after a single poll of the loop; the
  stability counter is never touched.
\<close>

theorem target_reached_after_single_poll:
  "\<exists>f w'. dispense_run exact_scale 0 65 (world0 1000)
            = Some (Continues f w')
     \<and> after_read 0 1500 195 (feed_init 0 (world0 1000))
          = (feed_init 0 (world0 1000))
              \<lparr>lastWeightRead := 1500, weightReadings := [195, 0, 0], readingIndex := 1,
                currentWeight := 65, dispensedWeight := 65\<rparr>
     \<and> targetReached f \<and> stabilityCounter f = 0
     \<and> lastWeightRead f = 1500
     \<and> Lcd ''Target reached!'' \<in> set (events w')
     \<and> servo_log w' = [SERVO_OPEN_ANGLE, SERVO_CLOSE_ANGLE, SERVO_CLOSE_ANGLE]"
  by (simp add: run_exactly_target) (simp add: after_read_def feed_init_def millis_def world0_def)

end
